theory Spec2Isabelle
  imports Complex_Main
begin

section \<open>Python string and number primitives\<close>

text \<open>
  The store keeps every value as a string (the connection is opened with
  \<^verbatim>\<open>decode_responses=True\<close>), and the code converts with \<^verbatim>\<open>int\<close>, \<^verbatim>\<open>float\<close>,
  \<^verbatim>\<open>str\<close> and \<^verbatim>\<open>str.isdigit\<close>. Strings are ASCII texts here. Integers are
  unbounded, and \<^verbatim>\<open>int\<close> reads a digit string of any length (the interpreter's
  optional limit on the number of digits is taken to be off).
\<close>

definition is_ascii_digit :: "char \<Rightarrow> bool" where
  "is_ascii_digit c \<longleftrightarrow> c \<in> set ''0123456789''"

definition digit_value :: "char \<Rightarrow> nat" where
  "digit_value c = of_char c - 48"

definition digits_value :: "string \<Rightarrow> nat" where
  "digits_value s = foldl (\<lambda>acc c. 10 * acc + digit_value c) 0 s"

text \<open>\<^verbatim>\<open>s.isdigit()\<close>: at least one character, and all of them digits.\<close>

definition py_isdigit :: "string \<Rightarrow> bool" where
  "py_isdigit s \<longleftrightarrow> s \<noteq> [] \<and> list_all is_ascii_digit s"

text \<open>
  The white space that \<^verbatim>\<open>int\<close> and \<^verbatim>\<open>float\<close> skip around an ASCII literal: tab,
  line feed, vertical tab, form feed, carriage return and the space. The separators
  \<^verbatim>\<open>0x1C\<close> to \<^verbatim>\<open>0x1F\<close>, which \<^verbatim>\<open>str.strip\<close> removes, are not among them:
  \<^verbatim>\<open>int('\x1c5')\<close> raises \<^verbatim>\<open>ValueError\<close>.
\<close>

definition is_py_space :: "char \<Rightarrow> bool" where
  "is_py_space c \<longleftrightarrow>
     c \<in> set [CHR 0x09, CHR 0x0A, CHR 0x0B, CHR 0x0C, CHR 0x0D, CHR 0x20]"

definition py_strip :: "string \<Rightarrow> string" where
  "py_strip s = rev (dropWhile is_py_space (rev (dropWhile is_py_space s)))"

text \<open>
  Numeric literals may group digits with single underscores; an underscore is legal
  only between two digits. \<open>drop_underscores prev s\<close> removes them, or fails.
\<close>

fun drop_underscores :: "char option \<Rightarrow> string \<Rightarrow> string option" where
  "drop_underscores prev [] = (if prev = Some (CHR ''_'') then None else Some [])"
| "drop_underscores prev (c # cs) =
     (if c = CHR ''_''
      then (if (case prev of Some p \<Rightarrow> is_ascii_digit p | None \<Rightarrow> False)
            then drop_underscores (Some c) cs else None)
      else if prev = Some (CHR ''_'') \<and> \<not> is_ascii_digit c then None
      else map_option ((#) c) (drop_underscores (Some c) cs))"

definition unsigned_int :: "string \<Rightarrow> int option" where
  "unsigned_int ds = (if py_isdigit ds then Some (int (digits_value ds)) else None)"

definition signed_int :: "string \<Rightarrow> int option" where
  "signed_int t =
     (case t of
        [] \<Rightarrow> None
      | c # cs \<Rightarrow>
          if c = CHR ''-'' then map_option uminus (unsigned_int cs)
          else if c = CHR ''+'' then unsigned_int cs
          else unsigned_int (c # cs))"

text \<open>\<^verbatim>\<open>int(s)\<close> for a string \<open>s\<close>; \<open>None\<close> is the \<^verbatim>\<open>ValueError\<close>.\<close>

definition py_int :: "string \<Rightarrow> int option" where
  "py_int s =
     (case drop_underscores None (py_strip s) of
        None \<Rightarrow> None
      | Some t \<Rightarrow> signed_int t)"

text \<open>
  A Python float: a finite value, an infinity, or not-a-number. A finite value is
  the real number it denotes; the rounding of a literal to the nearest binary64
  value is left out, its overflow to an infinity is not.
\<close>

datatype pyfloat = Finite real | PosInf | NegInf | NaN

text \<open>\<^verbatim>\<open>x <= y\<close> on floats: false as soon as one side is not-a-number.\<close>

definition float_le :: "pyfloat \<Rightarrow> pyfloat \<Rightarrow> bool" where
  "float_le x y =
     (case x of
        NaN \<Rightarrow> False
      | NegInf \<Rightarrow> y \<noteq> NaN
      | PosInf \<Rightarrow> y = PosInf
      | Finite a \<Rightarrow>
          (case y of
             Finite b \<Rightarrow> a \<le> b
           | PosInf \<Rightarrow> True
           | NegInf \<Rightarrow> False
           | NaN \<Rightarrow> False))"

definition float_neg :: "pyfloat \<Rightarrow> pyfloat" where
  "float_neg x =
     (case x of
        Finite a \<Rightarrow> Finite (- a)
      | PosInf \<Rightarrow> NegInf
      | NegInf \<Rightarrow> PosInf
      | NaN \<Rightarrow> NaN)"

text \<open>
  The value of a decimal literal that denotes \<open>r\<close>. From \<open>2 ^ 1024 - 2 ^ 970\<close> on,
  half a step above the largest binary64 value, the literal rounds to an infinity.
\<close>

definition float_of_real :: "real \<Rightarrow> pyfloat" where
  "float_of_real r =
     (if 2 ^ 1024 - 2 ^ 970 \<le> r then PosInf
      else if r \<le> - (2 ^ 1024 - 2 ^ 970) then NegInf
      else Finite r)"

definition lower_char :: "char \<Rightarrow> char" where
  "lower_char c =
     (case map_of (zip ''ABCDEFGHIJKLMNOPQRSTUVWXYZ'' ''abcdefghijklmnopqrstuvwxyz'') c of
        None \<Rightarrow> c
      | Some l \<Rightarrow> l)"

definition py_lower :: "string \<Rightarrow> string" where
  "py_lower s = map lower_char s"

definition pow10 :: "int \<Rightarrow> real" where
  "pow10 k = (if 0 \<le> k then 10 ^ nat k else 1 / 10 ^ nat (- k))"

definition float_exponent :: "string \<Rightarrow> int option" where
  "float_exponent t =
     (case t of
        [] \<Rightarrow> Some 0
      | e # r \<Rightarrow> if e = CHR ''e'' \<or> e = CHR ''E'' then signed_int r else None)"

text \<open>
  The spellings \<^verbatim>\<open>inf\<close>, \<^verbatim>\<open>infinity\<close> and \<^verbatim>\<open>nan\<close>, in any case of the letters.
\<close>

definition inf_or_nan :: "string \<Rightarrow> pyfloat option" where
  "inf_or_nan t =
     (if py_lower t = ''inf'' \<or> py_lower t = ''infinity'' then Some PosInf
      else if py_lower t = ''nan'' then Some NaN
      else None)"

definition decimal_float :: "string \<Rightarrow> pyfloat option" where
  "decimal_float t =
     (let ip = takeWhile is_ascii_digit t;
          r1 = dropWhile is_ascii_digit t;
          dot = (case r1 of [] \<Rightarrow> False | c # _ \<Rightarrow> c = CHR ''.'');
          r2 = (if dot then tl r1 else r1);
          fp = (if dot then takeWhile is_ascii_digit r2 else []);
          r3 = (if dot then dropWhile is_ascii_digit r2 else r2)
      in if ip = [] \<and> fp = [] then None
         else (case float_exponent r3 of
                 None \<Rightarrow> None
               | Some e \<Rightarrow>
                   Some (float_of_real
                           (real (digits_value (ip @ fp)) * pow10 (e - int (length fp))))))"

definition unsigned_float :: "string \<Rightarrow> pyfloat option" where
  "unsigned_float t =
     (case inf_or_nan t of
        Some v \<Rightarrow> Some v
      | None \<Rightarrow> decimal_float t)"

text \<open>
  \<^verbatim>\<open>float(s)\<close> for a string \<open>s\<close>; \<open>None\<close> is the \<^verbatim>\<open>ValueError\<close>. White space around
  the literal is skipped, underscores between digits are dropped, and a sign may
  stand before a decimal literal as well as before \<^verbatim>\<open>inf\<close> and \<^verbatim>\<open>nan\<close>.
\<close>

definition py_float :: "string \<Rightarrow> pyfloat option" where
  "py_float s =
     (case drop_underscores None (py_strip s) of
        None \<Rightarrow> None
      | Some [] \<Rightarrow> None
      | Some (c # cs) \<Rightarrow>
          if c = CHR ''-'' then map_option float_neg (unsigned_float cs)
          else if c = CHR ''+'' then unsigned_float cs
          else unsigned_float (c # cs))"

text \<open>\<^verbatim>\<open>str(i)\<close> for an integer.\<close>

function digits_of_nat :: "nat \<Rightarrow> string" where
  "digits_of_nat n =
     (if n < 10 then [''0123456789'' ! n]
      else digits_of_nat (n div 10) @ [''0123456789'' ! (n mod 10)])"
  by pat_completeness auto
termination
  by (relation "measure id") auto

declare digits_of_nat.simps [simp del]

definition py_str_int :: "int \<Rightarrow> string" where
  "py_str_int i =
     (if i < 0 then CHR ''-'' # digits_of_nat (nat (- i)) else digits_of_nat (nat i))"

text \<open>\<^verbatim>\<open>str(x)\<close> for a value that is a string or \<^verbatim>\<open>None\<close>.\<close>

definition py_str_opt :: "string option \<Rightarrow> string" where
  "py_str_opt x = (case x of None \<Rightarrow> ''None'' | Some v \<Rightarrow> v)"

text \<open>Truth value of a string or \<^verbatim>\<open>None\<close>: a non-empty string.\<close>

definition py_truthy :: "string option \<Rightarrow> bool" where
  "py_truthy x = (case x of None \<Rightarrow> False | Some v \<Rightarrow> v \<noteq> [])"

definition py_startswith :: "string \<Rightarrow> string \<Rightarrow> bool" where
  "py_startswith s p \<longleftrightarrow> take (length p) s = p"

text \<open>\<^verbatim>\<open>sub in s\<close> on strings.\<close>

fun py_in :: "string \<Rightarrow> string \<Rightarrow> bool" where
  "py_in sub [] = (sub = [])"
| "py_in sub (c # cs) = (py_startswith (c # cs) sub \<or> py_in sub cs)"

text \<open>
  A Python dict keeps its keys in insertion order; assigning to a key that is
  present replaces the value in place.
\<close>

fun dict_put :: "('k \<times> 'v) list \<Rightarrow> 'k \<Rightarrow> 'v \<Rightarrow> ('k \<times> 'v) list" where
  "dict_put [] k v = [(k, v)]"
| "dict_put ((k', v') # kvs) k v =
     (if k' = k then (k, v) # kvs else (k', v') # dict_put kvs k v)"


section \<open>The store (redis\_db.py)\<close>

text \<open>
  One field per key family of the store. A hash that does not exist reads as the
  empty hash and a set that does not exist as the empty set, as Redis answers
  \<^verbatim>\<open>HGETALL\<close> and \<^verbatim>\<open>SMEMBERS\<close>. A set is the list of its members, in the order
  in which the store enumerates them. The chat-task sets are keyed by the chat id,
  an integer at every call site. The store answers every command: the handlers for a
  lost connection are not modelled.
\<close>

type_synonym redis_hash = "(string \<times> string) list"

record store =
  task_hashes :: "string \<Rightarrow> redis_hash"
  notified_sets :: "string \<Rightarrow> string list"
  chat_task_sets :: "int \<Rightarrow> string list"
  all_tasks :: "string list"
  all_chats :: "string list"
  next_task_id :: int

text \<open>config.py\<close>

definition MAX_NOTIFIED_HISTORY_PER_TASK :: nat where
  "MAX_NOTIFIED_HISTORY_PER_TASK = 0"

text \<open>\<^verbatim>\<open>SADD\<close>: the new member list and the number of members that were new.\<close>

fun sadd :: "string list \<Rightarrow> string list \<Rightarrow> string list \<times> nat" where
  "sadd members [] = (members, 0)"
| "sadd members (x # xs) =
     (if x \<in> set members then sadd members xs
      else (case sadd (members @ [x]) xs of (m, n) \<Rightarrow> (m, Suc n)))"

definition srem :: "string list \<Rightarrow> string \<Rightarrow> string list" where
  "srem members x = removeAll x members"

text \<open>\<^verbatim>\<open>HSET key mapping\<close>: the new hash and the number of fields that were new.\<close>

fun hset :: "redis_hash \<Rightarrow> (string \<times> string) list \<Rightarrow> redis_hash \<times> nat" where
  "hset h [] = (h, 0)"
| "hset h ((f, v) # fvs) =
     (case hset (dict_put h f v) fvs of
        (h', n) \<Rightarrow> (h', if map_of h f = None then Suc n else n))"

text \<open>The parsed task: the typed fields of the dict that the parse returns.\<close>

record task =
  t_id :: int
  t_chat_id :: int
  t_platform :: "string option"
  t_query :: "string option"
  t_max_price :: pyfloat
  t_sort_options :: "string option"
  t_max_minutes_left :: "int option"

text \<open>\<^verbatim>\<open>int(parsed.get(k, 0))\<close> and \<^verbatim>\<open>float(parsed.get(k, 0.0))\<close>.\<close>

definition get_int_or_0 :: "redis_hash \<Rightarrow> string \<Rightarrow> int option" where
  "get_int_or_0 h k = (case map_of h k of None \<Rightarrow> Some 0 | Some v \<Rightarrow> py_int v)"

definition get_float_or_0 :: "redis_hash \<Rightarrow> string \<Rightarrow> pyfloat option" where
  "get_float_or_0 h k =
     (case map_of h k of None \<Rightarrow> Some (Finite 0) | Some v \<Rightarrow> py_float v)"

text \<open>
  \<^verbatim>\<open>_parse_task_hash\<close>. \<open>None\<close> is its \<^verbatim>\<open>return None\<close>, for the empty hash and
  from the handler of \<^verbatim>\<open>ValueError\<close>.
\<close>

definition parse_task_hash :: "redis_hash \<Rightarrow> task option" where
  "parse_task_hash task_hash =
     (if task_hash = [] then None
      else
        (case get_int_or_0 task_hash ''id'' of
           None \<Rightarrow> None
         | Some id_val \<Rightarrow>
        (case get_int_or_0 task_hash ''chat_id'' of
           None \<Rightarrow> None
         | Some chat_id_val \<Rightarrow>
        (case get_float_or_0 task_hash ''max_price'' of
           None \<Rightarrow> None
         | Some max_price_val \<Rightarrow>
        (let sort_val = (if py_truthy (map_of task_hash ''sort_options'')
                         then map_of task_hash ''sort_options'' else None);
             max_mins_str = map_of task_hash ''max_minutes_left''
         in case (case max_mins_str of
                    None \<Rightarrow> Some None
                  | Some m \<Rightarrow> if m \<noteq> [] \<and> py_isdigit m
                              then map_option Some (py_int m) else Some None) of
              None \<Rightarrow> None
            | Some max_mins_val \<Rightarrow>
                Some \<lparr>t_id = id_val, t_chat_id = chat_id_val,
                      t_platform = map_of task_hash ''platform'',
                      t_query = map_of task_hash ''query'',
                      t_max_price = max_price_val,
                      t_sort_options = sort_val,
                      t_max_minutes_left = max_mins_val\<rparr>)))))"

text \<open>
  \<^verbatim>\<open>add_task\<close>. The argument \<open>max_price\<close> is \<^verbatim>\<open>str(max_price)\<close>, the caller's
  float as Python prints it. The result is the new store and the task id, or \<open>None\<close>.
\<close>

definition add_task ::
  "store \<Rightarrow> int \<Rightarrow> string \<Rightarrow> string \<Rightarrow> string \<Rightarrow> string option \<Rightarrow> int option
     \<Rightarrow> store \<times> int option" where
  "add_task s chat_id platform query max_price sort_options max_minutes_left =
     (let task_id = next_task_id s + 1;
          s0 = s\<lparr>next_task_id := task_id\<rparr>;
          key = py_str_int task_id;
          task_data =
            [(''id'', py_str_int task_id),
             (''chat_id'', py_str_int chat_id),
             (''platform'', platform),
             (''query'', query),
             (''max_price'', max_price),
             (''sort_options'', if py_truthy sort_options then py_str_opt sort_options else ''''),
             (''max_minutes_left'',
                case max_minutes_left of None \<Rightarrow> '''' | Some m \<Rightarrow> py_str_int m)];
          num_fields_expected = length task_data;
          r0 = hset (task_hashes s0 key) task_data;
          r1 = sadd (chat_task_sets s0 chat_id) [key];
          r2 = sadd (all_tasks s0) [key];
          r3 = sadd (all_chats s0) [py_str_int chat_id];
          s1 = s0\<lparr>task_hashes := (task_hashes s0)(key := fst r0),
                  chat_task_sets := (chat_task_sets s0)(chat_id := fst r1),
                  all_tasks := fst r2,
                  all_chats := fst r3\<rparr>
      in if snd r0 = num_fields_expected \<and> snd r1 = 1 \<and> snd r2 = 1
         then (s1, Some task_id)
         else
           (let s2 = s1\<lparr>task_hashes := (task_hashes s1)(key := []),
                        chat_task_sets :=
                          (chat_task_sets s1)(chat_id := srem (chat_task_sets s1 chat_id) key),
                        all_tasks := srem (all_tasks s1) key\<rparr>;
                s3 = (if chat_task_sets s2 chat_id = []
                      then s2\<lparr>all_chats := srem (all_chats s2) (py_str_int chat_id)\<rparr>
                      else s2)
            in (s3, None)))"

text \<open>\<^verbatim>\<open>remove_task\<close>, with \<open>task_id_str\<close> the string form of the task id.\<close>

definition remove_task :: "store \<Rightarrow> string \<Rightarrow> int \<Rightarrow> store \<times> bool" where
  "remove_task s task_id_str chat_id =
     (if task_id_str \<notin> set (chat_task_sets s chat_id) then (s, False)
      else
        (let s1 = s\<lparr>task_hashes := (task_hashes s)(task_id_str := []),
                     notified_sets := (notified_sets s)(task_id_str := []),
                     chat_task_sets :=
                       (chat_task_sets s)(chat_id := srem (chat_task_sets s chat_id) task_id_str),
                     all_tasks := srem (all_tasks s) task_id_str\<rparr>;
             s2 = (if chat_task_sets s1 chat_id = []
                   then s1\<lparr>all_chats := srem (all_chats s1) (py_str_int chat_id)\<rparr>
                   else s1)
         in (s2, True)))"

definition get_all_task_ids :: "store \<Rightarrow> string list" where
  "get_all_task_ids s = all_tasks s"

definition get_notified_items :: "store \<Rightarrow> string \<Rightarrow> string list" where
  "get_notified_items s task_id = notified_sets s task_id"

text \<open>
  \<^verbatim>\<open>add_notified_items\<close>: the new store and the number of urls that were new. The
  trimming keeps the last members in the store's enumeration order.
\<close>

definition add_notified_items :: "store \<Rightarrow> string \<Rightarrow> string option list \<Rightarrow> store \<times> nat" where
  "add_notified_items s task_id notified_items_list =
     (if notified_items_list = [] then (s, 0)
      else
        (let string_items = map py_str_opt notified_items_list;
             r = sadd (notified_sets s task_id) string_items;
             s1 = s\<lparr>notified_sets := (notified_sets s)(task_id := fst r)\<rparr>;
             added_count = snd r;
             s2 = (if MAX_NOTIFIED_HISTORY_PER_TASK > 0
                   then (let current_size = length (notified_sets s1 task_id)
                         in if current_size > MAX_NOTIFIED_HISTORY_PER_TASK
                            then (let all_items = notified_sets s1 task_id;
                                      items_to_keep =
                                        drop (length all_items - MAX_NOTIFIED_HISTORY_PER_TASK)
                                          all_items
                                  in s1\<lparr>notified_sets :=
                                          (notified_sets s1)(task_id := fst (sadd [] items_to_keep))\<rparr>)
                            else s1)
                   else s1)
         in (s2, added_count)))"

text \<open>
  \<^verbatim>\<open>get_distinct_chat_ids\<close>. A failing conversion is caught by the handler of
  \<^verbatim>\<open>Exception\<close>, which returns the empty list.
\<close>

definition get_distinct_chat_ids :: "store \<Rightarrow> int list" where
  "get_distinct_chat_ids s =
     (case those (map py_int (filter py_isdigit (all_chats s))) of
        None \<Rightarrow> []
      | Some ids \<Rightarrow> ids)"


section \<open>The periodic check (bot.py, check\_monitoring\_tasks)\<close>

subsection \<open>Fetched items and the world outside\<close>

text \<open>An item dict of the scraper; a key that is absent reads as \<open>None\<close>.\<close>

record item =
  i_name :: "string option"
  i_price :: "pyfloat option"
  i_url :: "string option"
  i_image_url :: "string option"
  i_minutes_left :: "int option"

type_synonym scrape_key = "string option \<times> string option \<times> string option"

text \<open>
  What one call of \<^verbatim>\<open>scraper.scrape_zenmarket\<close> gives to \<^verbatim>\<open>gather\<close>: the exception
  it raised, \<^verbatim>\<open>None\<close>, or a list of items.
\<close>

datatype scrape_outcome = ScrapeRaised | ScrapeNone | ScrapeItems "item list"

text \<open>
  \<^verbatim>\<open>wait_for(gather(...), timeout=240.0)\<close>: all results, the timeout, or another
  exception.
\<close>

datatype gather_outcome = GatherDone | GatherTimeout | GatherError

text \<open>What one call of the bot API answers: success or the exception raised.\<close>

datatype send_outcome = Sent | BadRequest string | Forbidden | TimedOut | OtherError

datatype send_kind = SendPhoto | SendMessageMarkdown | SendMessagePlain

text \<open>
  The world of one cycle. The source is asked once per key, so its answers are a
  function of the key. A call of the bot API is identified by the task, the position
  of the item among the new items of that task, and the kind of call: the loop makes
  each such call at most once in a cycle. Message texts are not modelled.
\<close>

record env =
  scrape_zenmarket :: "scrape_key \<Rightarrow> scrape_outcome"
  gather :: gather_outcome
  bot_send :: "string \<Rightarrow> nat \<Rightarrow> send_kind \<Rightarrow> send_outcome"

text \<open>
  What the cycle did to one new item: the calls made with their outcomes, and how it
  ended. \<open>Delivered\<close> is \<^verbatim>\<open>message_sent_successfully\<close>, \<open>Unreachable\<close> the handler
  of \<^verbatim>\<open>Forbidden\<close>.
\<close>

datatype delivery_result = Delivered | NotDelivered | Unreachable

record delivery =
  d_task :: string
  d_chat :: int
  d_link :: "string option"
  d_calls :: "(send_kind \<times> send_outcome) list"
  d_result :: delivery_result

record cycle_result =
  store_after :: store
  scrapes :: "scrape_key list"
  deliveries :: "delivery list"

subsection \<open>Loading and grouping\<close>

text \<open>The loop over the pipeline results that fills the two maps.\<close>

fun load_task_data ::
  "store \<Rightarrow> string list \<Rightarrow> (string \<times> task) list \<Rightarrow> (string \<times> string list) list
     \<Rightarrow> (string \<times> task) list \<times> (string \<times> string list) list" where
  "load_task_data s [] task_details_map notified_items_map =
     (task_details_map, notified_items_map)"
| "load_task_data s (task_id # rest) task_details_map notified_items_map =
     (case parse_task_hash (task_hashes s task_id) of
        Some parsed_task \<Rightarrow>
          load_task_data s rest
            (dict_put task_details_map task_id parsed_task)
            (dict_put notified_items_map task_id (notified_sets s task_id))
      | None \<Rightarrow> load_task_data s rest task_details_map notified_items_map)"

definition scrape_key_of :: "task \<Rightarrow> scrape_key" where
  "scrape_key_of task_data = (t_platform task_data, t_query task_data, t_sort_options task_data)"

text \<open>The loop that fills \<^verbatim>\<open>tasks_to_scrape\<close>.\<close>

fun group_tasks ::
  "(string \<times> task) list \<Rightarrow> (scrape_key \<times> string list) list
     \<Rightarrow> (scrape_key \<times> string list) list" where
  "group_tasks [] tasks_to_scrape = tasks_to_scrape"
| "group_tasks ((task_id, task_data) # rest) tasks_to_scrape =
     (let scrape_key = scrape_key_of task_data in
      if \<not> (py_truthy (t_platform task_data) \<and> py_truthy (t_query task_data))
      then group_tasks rest tasks_to_scrape
      else group_tasks rest
             (dict_put tasks_to_scrape scrape_key
                ((case map_of tasks_to_scrape scrape_key of None \<Rightarrow> [] | Some ids \<Rightarrow> ids)
                  @ [task_id])))"

text \<open>The loop over the gathered results that fills \<^verbatim>\<open>scraped_items_map\<close>.\<close>

fun build_scraped_items_map ::
  "env \<Rightarrow> scrape_key list \<Rightarrow> (scrape_key \<times> scrape_outcome) list" where
  "build_scraped_items_map e [] = []"
| "build_scraped_items_map e (scrape_key # rest) =
     (scrape_key,
      case scrape_zenmarket e scrape_key of
        ScrapeRaised \<Rightarrow> ScrapeRaised
      | ScrapeNone \<Rightarrow> ScrapeItems []
      | ScrapeItems items \<Rightarrow> ScrapeItems items)
     # build_scraped_items_map e rest"

subsection \<open>Matching\<close>

text \<open>
  The value of \<^verbatim>\<open>match\<close> for one item, \<open>False\<close> where the loop body leaves with
  \<^verbatim>\<open>continue\<close>.
\<close>

definition item_match :: "pyfloat \<Rightarrow> int option \<Rightarrow> item \<Rightarrow> bool" where
  "item_match task_max_price task_max_minutes item =
     (case i_price item of
        None \<Rightarrow> False
      | Some item_price \<Rightarrow>
          if \<not> py_truthy (i_url item) then False
          else
            (let price_match = float_le item_price task_max_price;
                 time_match =
                   (case task_max_minutes of
                      None \<Rightarrow> False
                    | Some max_minutes \<Rightarrow>
                        (case i_minutes_left item of
                           None \<Rightarrow> False
                         | Some item_minutes_left \<Rightarrow>
                             if item_minutes_left \<noteq> - 1
                             then item_minutes_left \<le> max_minutes else False))
             in if task_max_minutes \<noteq> None then price_match \<and> time_match else price_match))"

text \<open>
  The loop over the scraped items: \<^verbatim>\<open>items_to_notify_this_task\<close> and
  \<^verbatim>\<open>urls_found_matching_this_task\<close>.
\<close>

fun match_items ::
  "pyfloat \<Rightarrow> int option \<Rightarrow> string list \<Rightarrow> item list \<Rightarrow> item list \<times> string option list" where
  "match_items task_max_price task_max_minutes notified_items_set [] = ([], [])"
| "match_items task_max_price task_max_minutes notified_items_set (item # rest) =
     (case match_items task_max_price task_max_minutes notified_items_set rest of
        (items_to_notify, urls_found) \<Rightarrow>
          if item_match task_max_price task_max_minutes item
          then (if py_str_opt (i_url item) \<notin> set notified_items_set
                then item # items_to_notify else items_to_notify,
                i_url item # urls_found)
          else (items_to_notify, urls_found))"

subsection \<open>Notifying\<close>

definition photo_error_indicators :: "string list" where
  "photo_error_indicators =
     [''failed to get http url content'',
      ''wrong file identifier'',
      ''photo_invalid'',
      ''wrong type of the web page content'']"

text \<open>
  The \<^verbatim>\<open>try\<close> statement that sends one item: the calls made and the result.
\<close>

definition send_item ::
  "env \<Rightarrow> string \<Rightarrow> nat \<Rightarrow> string \<Rightarrow> item
     \<Rightarrow> (send_kind \<times> send_outcome) list \<times> delivery_result" where
  "send_item e task_id_str idx platform item =
     (let send_photo_attempted =
            (platform \<noteq> ''yahoo'' \<and> py_truthy (i_image_url item)
             \<and> py_startswith (py_str_opt (i_image_url item)) ''http'');
          first_kind = (if send_photo_attempted then SendPhoto else SendMessageMarkdown);
          first = bot_send e task_id_str idx first_kind
      in case first of
           Sent \<Rightarrow> ([(first_kind, first)], Delivered)
         | BadRequest msg \<Rightarrow>
             (let error_str = py_lower msg;
                  is_common_photo_error =
                    list_ex (\<lambda>indicator. py_in indicator error_str) photo_error_indicators
              in if send_photo_attempted \<and> is_common_photo_error
                 then (let second = bot_send e task_id_str idx SendMessageMarkdown
                       in ([(first_kind, first), (SendMessageMarkdown, second)],
                           if second = Sent then Delivered else NotDelivered))
                 else if py_in ''entity'' error_str
                         \<or> py_in (''can'' @ [CHR 0x27] @ ''t parse entities'') error_str
                 then (let second = bot_send e task_id_str idx SendMessagePlain
                       in ([(first_kind, first), (SendMessagePlain, second)],
                           if second = Sent then Delivered else NotDelivered))
                 else ([(first_kind, first)], NotDelivered))
         | Forbidden \<Rightarrow> ([(first_kind, first)], Unreachable)
         | TimedOut \<Rightarrow> ([(first_kind, first)], NotDelivered)
         | OtherError \<Rightarrow> ([(first_kind, first)], NotDelivered))"

text \<open>
  The loop over \<^verbatim>\<open>items_to_notify_this_task\<close>: the deliveries,
  \<^verbatim>\<open>newly_notified_urls_for_db\<close> and \<^verbatim>\<open>tasks_to_remove_later\<close>. The handler of
  \<^verbatim>\<open>Forbidden\<close> leaves the loop with \<^verbatim>\<open>break\<close>.
\<close>

fun notify_items ::
  "env \<Rightarrow> string \<Rightarrow> int \<Rightarrow> string \<Rightarrow> nat \<Rightarrow> item list \<Rightarrow> (string \<times> int) list
     \<Rightarrow> delivery list \<times> string option list \<times> (string \<times> int) list" where
  "notify_items e task_id_str chat_id platform idx [] tasks_to_remove_later =
     ([], [], tasks_to_remove_later)"
| "notify_items e task_id_str chat_id platform idx (item # rest) tasks_to_remove_later =
     (case send_item e task_id_str idx platform item of
        (calls, res) \<Rightarrow>
          (let d = \<lparr>d_task = task_id_str, d_chat = chat_id, d_link = i_url item,
                    d_calls = calls, d_result = res\<rparr>
           in case res of
                Unreachable \<Rightarrow>
                  ([d], [],
                   if (task_id_str, chat_id) \<notin> set tasks_to_remove_later
                   then tasks_to_remove_later @ [(task_id_str, chat_id)]
                   else tasks_to_remove_later)
              | Delivered \<Rightarrow>
                  (case notify_items e task_id_str chat_id platform (Suc idx) rest
                          tasks_to_remove_later of
                     (ds, urls, rm) \<Rightarrow> (d # ds, i_url item # urls, rm))
              | NotDelivered \<Rightarrow>
                  (case notify_items e task_id_str chat_id platform (Suc idx) rest
                          tasks_to_remove_later of
                     (ds, urls, rm) \<Rightarrow> (d # ds, urls, rm))))"

subsection \<open>One task, and the whole cycle\<close>

text \<open>
  The body of the loop over \<^verbatim>\<open>task_details_map\<close>, on the store, the deliveries so
  far and \<^verbatim>\<open>tasks_to_remove_later\<close>.
\<close>

definition process_task ::
  "env \<Rightarrow> (string \<times> string list) list \<Rightarrow> (scrape_key \<times> scrape_outcome) list
     \<Rightarrow> string \<Rightarrow> task \<Rightarrow> store \<times> delivery list \<times> (string \<times> int) list
     \<Rightarrow> store \<times> delivery list \<times> (string \<times> int) list" where
  "process_task e notified_items_map scraped_items_map task_id_str task st =
     (case st of
        (s, made, tasks_to_remove_later) \<Rightarrow>
          (let chat_id = t_chat_id task;
               task_max_price = t_max_price task;
               task_max_minutes = t_max_minutes_left task;
               notified_items_set =
                 (case map_of notified_items_map task_id_str of None \<Rightarrow> [] | Some ns \<Rightarrow> ns)
           in if \<not> (chat_id \<noteq> 0 \<and> py_truthy (t_platform task) \<and> py_truthy (t_query task))
              then st
              else
                (case map_of scraped_items_map (scrape_key_of task) of
                   None \<Rightarrow> st
                 | Some ScrapeRaised \<Rightarrow> st
                 | Some ScrapeNone \<Rightarrow> st
                 | Some (ScrapeItems scraped_result) \<Rightarrow>
                     if scraped_result = [] then st
                     else
                       (case notify_items e task_id_str chat_id (py_str_opt (t_platform task)) 0
                               (fst (match_items task_max_price task_max_minutes
                                       notified_items_set scraped_result))
                               tasks_to_remove_later of
                          (ds, newly_notified_urls_for_db, rm) \<Rightarrow>
                            (if (task_id_str, chat_id) \<notin> set rm
                                \<and> newly_notified_urls_for_db \<noteq> []
                             then fst (add_notified_items s task_id_str newly_notified_urls_for_db)
                             else s,
                             made @ ds, rm)))))"

fun task_loop ::
  "env \<Rightarrow> (string \<times> string list) list \<Rightarrow> (scrape_key \<times> scrape_outcome) list
     \<Rightarrow> (string \<times> task) list \<Rightarrow> store \<times> delivery list \<times> (string \<times> int) list
     \<Rightarrow> store \<times> delivery list \<times> (string \<times> int) list" where
  "task_loop e notified_items_map scraped_items_map [] st = st"
| "task_loop e notified_items_map scraped_items_map ((task_id_str, task) # rest) st =
     task_loop e notified_items_map scraped_items_map rest
       (process_task e notified_items_map scraped_items_map task_id_str task st)"

text \<open>The loop over \<^verbatim>\<open>tasks_to_remove_later\<close>.\<close>

fun remove_tasks :: "store \<Rightarrow> (string \<times> int) list \<Rightarrow> store" where
  "remove_tasks s [] = s"
| "remove_tasks s ((task_id_str, chat_id_int) # rest) =
     remove_tasks (fst (remove_task s task_id_str chat_id_int)) rest"

text \<open>
  \<^verbatim>\<open>check_monitoring_tasks\<close>: one cycle, from the store and the world to the store
  after it, the keys handed to the scraper and the deliveries made.
\<close>

definition check_monitoring_tasks :: "env \<Rightarrow> store \<Rightarrow> cycle_result" where
  "check_monitoring_tasks e s =
     (let task_ids = get_all_task_ids s in
      if task_ids = [] then \<lparr>store_after = s, scrapes = [], deliveries = []\<rparr>
      else
        (case load_task_data s task_ids [] [] of
           (task_details_map, notified_items_map) \<Rightarrow>
             if task_details_map = [] then \<lparr>store_after = s, scrapes = [], deliveries = []\<rparr>
             else
               (let tasks_to_scrape = group_tasks task_details_map [] in
                if tasks_to_scrape = [] then \<lparr>store_after = s, scrapes = [], deliveries = []\<rparr>
                else
                  (let keys_in_order = map fst tasks_to_scrape in
                   case gather e of
                     GatherTimeout \<Rightarrow>
                       \<lparr>store_after = s, scrapes = keys_in_order, deliveries = []\<rparr>
                   | GatherError \<Rightarrow>
                       \<lparr>store_after = s, scrapes = keys_in_order, deliveries = []\<rparr>
                   | GatherDone \<Rightarrow>
                       (case task_loop e notified_items_map
                               (build_scraped_items_map e keys_in_order)
                               task_details_map (s, [], []) of
                          (s1, made, tasks_to_remove_later) \<Rightarrow>
                            \<lparr>store_after = remove_tasks s1 tasks_to_remove_later,
                             scrapes = keys_in_order,
                             deliveries = made\<rparr>)))))"

section \<open>Notions used to state and prove the properties\<close>

text \<open>
  The tasks that a cycle loads from the store, their seen sets, and the keys it hands
  to the scraper, as functions of the store at the start of the cycle.
\<close>

definition loaded_tasks :: "store \<Rightarrow> (string \<times> task) list" where
  "loaded_tasks s = fst (load_task_data s (all_tasks s) [] [])"

definition loaded_notified :: "store \<Rightarrow> (string \<times> string list) list" where
  "loaded_notified s = snd (load_task_data s (all_tasks s) [] [])"

definition scrape_keys :: "store \<Rightarrow> scrape_key list" where
  "scrape_keys s = map fst (group_tasks (loaded_tasks s) [])"

definition loop_result :: "env \<Rightarrow> store \<Rightarrow> store \<times> delivery list \<times> (string \<times> int) list" where
  "loop_result e s =
     task_loop e (loaded_notified s) (build_scraped_items_map e (scrape_keys s))
       (loaded_tasks s) (s, [], [])"

text \<open>A key is active when a task of the store parses and has that key, complete.\<close>

definition active_key :: "store \<Rightarrow> scrape_key \<Rightarrow> bool" where
  "active_key s k \<longleftrightarrow>
     (\<exists>t \<in> set (all_tasks s). \<exists>w. parse_task_hash (task_hashes s t) = Some w
        \<and> py_truthy (t_platform w) \<and> py_truthy (t_query w) \<and> scrape_key_of w = k)"

text \<open>
  The items of a task's own key, a raised exception and \<^verbatim>\<open>None\<close> read as no items;
  and the new items of a task: those that match and are not in its seen set.
\<close>

definition task_items :: "env \<Rightarrow> task \<Rightarrow> item list" where
  "task_items e w =
     (case scrape_zenmarket e (scrape_key_of w) of ScrapeItems items \<Rightarrow> items | _ \<Rightarrow> [])"

definition task_new_items :: "env \<Rightarrow> store \<Rightarrow> string \<Rightarrow> task \<Rightarrow> item list" where
  "task_new_items e s t w =
     (if t_chat_id w \<noteq> 0 \<and> py_truthy (t_platform w) \<and> py_truthy (t_query w)
      then fst (match_items (t_max_price w) (t_max_minutes_left w) (notified_sets s t)
                  (task_items e w))
      else [])"

text \<open>The deliveries of \<open>notify_items\<close> alone, without the removal list.\<close>

fun deliver_items ::
  "env \<Rightarrow> string \<Rightarrow> int \<Rightarrow> string \<Rightarrow> nat \<Rightarrow> item list \<Rightarrow> delivery list" where
  "deliver_items e t c pf i [] = []"
| "deliver_items e t c pf i (item # rest) =
     \<lparr>d_task = t, d_chat = c, d_link = i_url item,
      d_calls = fst (send_item e t i pf item), d_result = snd (send_item e t i pf item)\<rparr>
     # (if snd (send_item e t i pf item) = Unreachable then []
        else deliver_items e t c pf (Suc i) rest)"

definition has_unreachable :: "delivery list \<Rightarrow> bool" where
  "has_unreachable ds \<longleftrightarrow> (\<exists>d \<in> set ds. d_result d = Unreachable)"

definition delivered_links :: "delivery list \<Rightarrow> string option list" where
  "delivered_links ds = map d_link (filter (\<lambda>d. d_result d = Delivered) ds)"

definition task_deliveries :: "env \<Rightarrow> store \<Rightarrow> string \<Rightarrow> task \<Rightarrow> delivery list" where
  "task_deliveries e s t w =
     deliver_items e t (t_chat_id w) (py_str_opt (t_platform w)) 0 (task_new_items e s t w)"

definition all_deliveries :: "env \<Rightarrow> store \<Rightarrow> (string \<times> task) list \<Rightarrow> delivery list" where
  "all_deliveries e s0 tasks = concat (map (\<lambda>(t, w). task_deliveries e s0 t w) tasks)"

text \<open>
  One iteration of the task loop in terms of the store \<open>s0\<close> at the start of the
  cycle, and the loop made of such iterations.
\<close>

definition task_step ::
  "env \<Rightarrow> store \<Rightarrow> string \<Rightarrow> task \<Rightarrow> store \<times> delivery list \<times> (string \<times> int) list
     \<Rightarrow> store \<times> delivery list \<times> (string \<times> int) list" where
  "task_step e s0 t w st =
     (case st of
        (s, made, rm) \<Rightarrow>
          (let ds = task_deliveries e s0 t w;
               rm' = (if has_unreachable ds \<and> (t, t_chat_id w) \<notin> set rm
                      then rm @ [(t, t_chat_id w)] else rm)
           in (if (t, t_chat_id w) \<notin> set rm' \<and> delivered_links ds \<noteq> []
               then fst (add_notified_items s t (delivered_links ds)) else s,
               made @ ds, rm')))"

fun step_loop ::
  "env \<Rightarrow> store \<Rightarrow> (string \<times> task) list \<Rightarrow> store \<times> delivery list \<times> (string \<times> int) list
     \<Rightarrow> store \<times> delivery list \<times> (string \<times> int) list" where
  "step_loop e s0 [] st = st"
| "step_loop e s0 ((t, w) # rest) st = step_loop e s0 rest (task_step e s0 t w st)"

definition task_seen_after :: "env \<Rightarrow> store \<Rightarrow> string list \<Rightarrow> string \<Rightarrow> task \<Rightarrow> string list" where
  "task_seen_after e s0 seen t w =
     (if has_unreachable (task_deliveries e s0 t w) then seen
      else fst (sadd seen (map py_str_opt (delivered_links (task_deliveries e s0 t w)))))"

text \<open>
  What a list of deliveries says about one task: the urls delivered for it, and
  whether one of its deliveries ended in the handler of \<^verbatim>\<open>Forbidden\<close>.
\<close>

definition delivered_urls :: "delivery list \<Rightarrow> string \<Rightarrow> string list" where
  "delivered_urls ds t =
     map (\<lambda>d. py_str_opt (d_link d)) (filter (\<lambda>d. d_task d = t \<and> d_result d = Delivered) ds)"

definition marked_unreachable :: "delivery list \<Rightarrow> string \<Rightarrow> bool" where
  "marked_unreachable ds t \<longleftrightarrow> list_ex (\<lambda>d. d_task d = t \<and> d_result d = Unreachable) ds"

text \<open>A task is gone from the store: no id in the index, no hash, no seen set.\<close>

definition task_gone :: "store \<Rightarrow> string \<Rightarrow> bool" where
  "task_gone s t \<longleftrightarrow> t \<notin> set (all_tasks s) \<and> task_hashes s t = [] \<and> notified_sets s t = []"

section \<open>A store and some worlds to run the cycle on\<close>

text \<open>
  Three watches: two on the same Mercari query, for two chats, and one on Yahoo
  auctions ending within twenty minutes. The second watch has already seen \<open>u2\<close>.
\<close>

definition hash_1 :: redis_hash where
  "hash_1 = [(''id'', ''1''), (''chat_id'', ''7''), (''platform'', ''mercari''),
             (''query'', ''holo plush''), (''max_price'', ''5000.0''),
             (''sort_options'', ''LaunchDate''), (''max_minutes_left'', '''')]"

definition hash_2 :: redis_hash where
  "hash_2 = [(''id'', ''2''), (''chat_id'', ''-8''), (''platform'', ''mercari''),
             (''query'', ''holo plush''), (''max_price'', ''5000.0''),
             (''sort_options'', ''LaunchDate''), (''max_minutes_left'', '''')]"

definition hash_3 :: redis_hash where
  "hash_3 = [(''id'', ''3''), (''chat_id'', ''7''), (''platform'', ''yahoo''),
             (''query'', ''miku''), (''max_price'', ''3000.0''),
             (''sort_options'', ''sort=endtime&order=asc''), (''max_minutes_left'', ''20'')]"

definition watch_1 :: task where
  "watch_1 = \<lparr>t_id = 1, t_chat_id = 7, t_platform = Some ''mercari'',
     t_query = Some ''holo plush'', t_max_price = Finite 5000,
     t_sort_options = Some ''LaunchDate'', t_max_minutes_left = None\<rparr>"

definition watch_2 :: task where
  "watch_2 = \<lparr>t_id = 2, t_chat_id = - 8, t_platform = Some ''mercari'',
     t_query = Some ''holo plush'', t_max_price = Finite 5000,
     t_sort_options = Some ''LaunchDate'', t_max_minutes_left = None\<rparr>"

definition watch_3 :: task where
  "watch_3 = \<lparr>t_id = 3, t_chat_id = 7, t_platform = Some ''yahoo'',
     t_query = Some ''miku'', t_max_price = Finite 3000,
     t_sort_options = Some ''sort=endtime&order=asc'', t_max_minutes_left = Some 20\<rparr>"

definition store_ex :: store where
  "store_ex =
     \<lparr>task_hashes = (\<lambda>k. if k = ''1'' then hash_1 else if k = ''2'' then hash_2
                          else if k = ''3'' then hash_3 else []),
      notified_sets = (\<lambda>k. if k = ''2'' then [''u2''] else []),
      chat_task_sets = (\<lambda>c. if c = 7 then [''1'', ''3''] else if c = - 8 then [''2''] else []),
      all_tasks = [''1'', ''2'', ''3''],
      all_chats = [''7'', ''-8''],
      next_task_id = 3\<rparr>"

definition item_u1 :: item where
  "item_u1 = \<lparr>i_name = Some ''plush'', i_price = Some (Finite 4000), i_url = Some ''u1'',
              i_image_url = Some ''http://img/1'', i_minutes_left = None\<rparr>"

definition item_u2 :: item where
  "item_u2 = \<lparr>i_name = Some ''big plush'', i_price = Some (Finite 4500), i_url = Some ''u2'',
              i_image_url = None, i_minutes_left = None\<rparr>"

definition item_y1 :: item where
  "item_y1 = \<lparr>i_name = Some ''miku figure'', i_price = Some (Finite 2500), i_url = Some ''y1'',
              i_image_url = Some ''http://img/y1'', i_minutes_left = Some 15\<rparr>"

definition item_y2 :: item where
  "item_y2 = \<lparr>i_name = Some ''miku poster'', i_price = Some (Finite 2000), i_url = Some ''y2'',
              i_image_url = None, i_minutes_left = Some 25\<rparr>"

definition scrape_ex :: "scrape_key \<Rightarrow> scrape_outcome" where
  "scrape_ex k =
     (if k = (Some ''mercari'', Some ''holo plush'', Some ''LaunchDate'')
      then ScrapeItems [item_u1, item_u2]
      else ScrapeItems [item_y1, item_y2])"

definition env_ok :: env where
  "env_ok = \<lparr>scrape_zenmarket = scrape_ex, gather = GatherDone, bot_send = (\<lambda>t i k. Sent)\<rparr>"

definition env_blocked :: env where
  "env_blocked =
     \<lparr>scrape_zenmarket = scrape_ex, gather = GatherDone,
      bot_send = (\<lambda>t i k. if t = ''1'' \<and> i = 1 then Forbidden else Sent)\<rparr>"

definition env_fallback_blocked :: env where
  "env_fallback_blocked =
     \<lparr>scrape_zenmarket = scrape_ex, gather = GatherDone,
      bot_send = (\<lambda>t i k. if t = ''1'' \<and> i = 0
                           then (if k = SendPhoto
                                 then BadRequest ''Wrong file identifier/HTTP URL specified''
                                 else Forbidden)
                           else Sent)\<rparr>"

definition env_timeout :: env where
  "env_timeout = \<lparr>scrape_zenmarket = scrape_ex, gather = GatherTimeout, bot_send = (\<lambda>t i k. Sent)\<rparr>"

definition env_partial :: env where
  "env_partial =
     \<lparr>scrape_zenmarket =
        (\<lambda>k. if k = (Some ''mercari'', Some ''holo plush'', Some ''LaunchDate'')
             then ScrapeRaised else ScrapeItems [item_y1, item_y2]),
      gather = GatherDone, bot_send = (\<lambda>t i k. Sent)\<rparr>"

text \<open>Two hashes with fields missing or damaged.\<close>

definition hash_bare :: redis_hash where
  "hash_bare = [(''platform'', ''mercari''), (''query'', ''holo plush'')]"

definition hash_bad_id :: redis_hash where
  "hash_bad_id = [(''id'', ''x1''), (''chat_id'', ''7''), (''platform'', ''mercari''),
                  (''query'', ''holo plush''), (''max_price'', ''5000.0'')]"

text \<open>
  A hash whose \<open>id\<close> is the digit \<open>5\<close> after the separator \<^verbatim>\<open>0x1C\<close>, and a hash whose
  \<open>max_price\<close> is \<^verbatim>\<open>inf\<close>, as \<^verbatim>\<open>str\<close> writes a price that overflowed. The second is
  the only task of a store of its own.
\<close>

definition hash_sep :: redis_hash where
  "hash_sep = [(''id'', [CHR 0x1C, CHR ''5'']), (''chat_id'', ''7''), (''platform'', ''mercari''),
               (''query'', ''holo plush''), (''max_price'', ''5000.0'')]"

definition hash_inf :: redis_hash where
  "hash_inf = [(''id'', ''4''), (''chat_id'', ''7''), (''platform'', ''mercari''),
               (''query'', ''holo plush''), (''max_price'', ''inf''),
               (''sort_options'', ''LaunchDate''), (''max_minutes_left'', '''')]"

definition watch_inf :: task where
  "watch_inf = \<lparr>t_id = 4, t_chat_id = 7, t_platform = Some ''mercari'',
     t_query = Some ''holo plush'', t_max_price = PosInf,
     t_sort_options = Some ''LaunchDate'', t_max_minutes_left = None\<rparr>"

definition store_inf :: store where
  "store_inf =
     \<lparr>task_hashes = (\<lambda>k. if k = ''4'' then hash_inf else []),
      notified_sets = (\<lambda>k. []),
      chat_task_sets = (\<lambda>c. if c = 7 then [''4''] else []),
      all_tasks = [''4''],
      all_chats = [''7''],
      next_task_id = 4\<rparr>"

section \<open>Lemmas\<close>

lemma float_le_Finite [simp]: "float_le (Finite a) (Finite b) \<longleftrightarrow> a \<le> b"
  by (simp add: float_le_def)

lemma float_le_NaN [simp]: "\<not> float_le NaN y" "\<not> float_le x NaN"
  by (simp_all add: float_le_def split: pyfloat.splits)

lemma float_le_PosInf [simp]: "float_le x PosInf \<longleftrightarrow> x \<noteq> NaN"
  by (simp add: float_le_def split: pyfloat.splits)

lemma map_of_dict_put: "map_of (dict_put al k v) = (map_of al)(k \<mapsto> v)"
  by (induction al k v rule: dict_put.induct) (auto simp: fun_eq_iff)

lemma keys_dict_put: "fst ` set (dict_put al k v) = insert k (fst ` set al)"
  by (induction al k v rule: dict_put.induct) auto

lemma distinct_dict_put:
  "distinct (map fst al) \<Longrightarrow> distinct (map fst (dict_put al k v))"
  by (induction al k v rule: dict_put.induct) (auto simp: keys_dict_put)

lemma dict_put_not_Nil: "dict_put al k v \<noteq> []"
  by (induction al k v rule: dict_put.induct) auto

lemma load_distinct:
  "distinct (map fst tdm) \<Longrightarrow> distinct (map fst (fst (load_task_data s ids tdm nim)))"
  by (induction ids arbitrary: tdm nim) (auto simp: distinct_dict_put split: option.splits)

lemma load_details:
  "map_of (fst (load_task_data s ids tdm nim)) t =
     (if t \<in> set ids \<and> parse_task_hash (task_hashes s t) \<noteq> None
      then parse_task_hash (task_hashes s t) else map_of tdm t)"
  by (induction ids arbitrary: tdm nim) (auto simp: map_of_dict_put split: option.splits)

lemma load_notified:
  "map_of (snd (load_task_data s ids tdm nim)) t =
     (if t \<in> set ids \<and> parse_task_hash (task_hashes s t) \<noteq> None
      then Some (notified_sets s t) else map_of nim t)"
  by (induction ids arbitrary: tdm nim) (auto simp: map_of_dict_put split: option.splits)

lemma loaded_iff:
  "(t, w) \<in> set (fst (load_task_data s ids [] [])) \<longleftrightarrow>
     t \<in> set ids \<and> parse_task_hash (task_hashes s t) = Some w"
proof -
  have d: "distinct (map fst (fst (load_task_data s ids [] [])))"
    by (rule load_distinct) simp
  have "(t, w) \<in> set (fst (load_task_data s ids [] [])) \<longleftrightarrow>
          map_of (fst (load_task_data s ids [] [])) t = Some w"
    using d by simp
  then show ?thesis
    by (auto simp: load_details)
qed

lemma group_distinct:
  "distinct (map fst acc) \<Longrightarrow> distinct (map fst (group_tasks tdm acc))"
  by (induction tdm acc rule: group_tasks.induct) (auto simp: distinct_dict_put Let_def)

lemma group_keys:
  "fst ` set (group_tasks tdm acc) =
     fst ` set acc \<union>
     {scrape_key_of w | t w. (t, w) \<in> set tdm \<and> py_truthy (t_platform w) \<and> py_truthy (t_query w)}"
  by (induction tdm acc rule: group_tasks.induct) (auto simp: keys_dict_put Let_def)

lemma count_list_distinct:
  "distinct xs \<Longrightarrow> count_list xs x = (if x \<in> set xs then 1 else 0)"
  by (induction xs) auto

lemma process_task_no_results: "process_task e nim [] t w st = st"
  by (cases st) (simp add: process_task_def Let_def)

lemma task_loop_no_results: "task_loop e nim [] tasks st = st"
  by (induction tasks arbitrary: st) (auto simp: process_task_no_results)

lemma group_tasks_acc_not_Nil: "acc \<noteq> [] \<Longrightarrow> group_tasks tdm acc \<noteq> []"
  by (induction tdm acc rule: group_tasks.induct) (auto simp: Let_def dict_put_not_Nil)

lemma cycle_scrapes: "scrapes (check_monitoring_tasks e s) = scrape_keys s"
  by (auto simp: check_monitoring_tasks_def get_all_task_ids_def Let_def scrape_keys_def
      loaded_tasks_def split: prod.splits gather_outcome.splits)

lemma cycle_not_done:
  "gather e \<noteq> GatherDone \<Longrightarrow>
     store_after (check_monitoring_tasks e s) = s \<and> deliveries (check_monitoring_tasks e s) = []"
  by (auto simp: check_monitoring_tasks_def Let_def split: prod.splits gather_outcome.splits)

lemma cycle_done:
  assumes "gather e = GatherDone"
  shows "store_after (check_monitoring_tasks e s) =
           remove_tasks (fst (loop_result e s)) (snd (snd (loop_result e s)))"
    and "deliveries (check_monitoring_tasks e s) = fst (snd (loop_result e s))"
  using assms
  by (auto simp: check_monitoring_tasks_def get_all_task_ids_def Let_def scrape_keys_def
      loaded_tasks_def loaded_notified_def loop_result_def task_loop_no_results
      split: prod.splits gather_outcome.splits)

lemma loaded_tasks_iff:
  "(t, w) \<in> set (loaded_tasks s) \<longleftrightarrow>
     t \<in> set (all_tasks s) \<and> parse_task_hash (task_hashes s t) = Some w"
  by (simp add: loaded_tasks_def loaded_iff)

lemma loaded_tasks_distinct: "distinct (map fst (loaded_tasks s))"
  unfolding loaded_tasks_def by (rule load_distinct) simp

lemma loaded_notified_eq:
  "(t, w) \<in> set (loaded_tasks s) \<Longrightarrow> map_of (loaded_notified s) t = Some (notified_sets s t)"
  by (simp add: loaded_tasks_iff loaded_notified_def load_notified)

lemma scrapes_distinct: "distinct (scrapes (check_monitoring_tasks e s))"
  by (simp add: cycle_scrapes scrape_keys_def group_distinct)

lemma scrapes_set:
  "set (scrapes (check_monitoring_tasks e s)) =
     {scrape_key_of w | t w. t \<in> set (all_tasks s) \<and> parse_task_hash (task_hashes s t) = Some w
        \<and> py_truthy (t_platform w) \<and> py_truthy (t_query w)}"
  by (simp add: cycle_scrapes scrape_keys_def group_keys loaded_tasks_iff)

lemma match_items_filter:
  "fst (match_items mp mm seen items) =
     filter (\<lambda>item. item_match mp mm item \<and> py_str_opt (i_url item) \<notin> set seen) items"
  by (induction items) (auto split: prod.splits)

lemma notify_items_eq:
  "notify_items e t c pf i items rm =
     (deliver_items e t c pf i items,
      delivered_links (deliver_items e t c pf i items),
      if has_unreachable (deliver_items e t c pf i items) \<and> (t, c) \<notin> set rm
      then rm @ [(t, c)] else rm)"
proof (induction items arbitrary: i)
  case Nil
  show ?case by (simp add: has_unreachable_def delivered_links_def)
next
  case (Cons item rest)
  obtain calls res where si: "send_item e t i pf item = (calls, res)"
    by (cases "send_item e t i pf item")
  show ?case
    by (cases res) (simp_all add: si Cons.IH Let_def has_unreachable_def delivered_links_def)
qed

lemma deliver_items_task:
  "d \<in> set (deliver_items e t c pf i items) \<Longrightarrow>
     d_task d = t \<and> d_chat d = c \<and> (\<exists>item \<in> set items. d_link d = i_url item)"
  by (induction items arbitrary: i) (auto split: if_splits)

lemma deliver_items_break:
  "deliver_items e t c pf i items = pre @ d # post \<Longrightarrow> d_result d = Unreachable \<Longrightarrow> post = []"
proof (induction items arbitrary: i pre)
  case Nil
  then show ?case by simp
next
  case (Cons item rest)
  show ?case
  proof (cases pre)
    case Nil
    with Cons.prems show ?thesis by (auto split: if_splits)
  next
    case (Cons p pre')
    with Cons.prems have "deliver_items e t c pf (Suc i) rest = pre' @ d # post"
      by (auto split: if_splits)
    then show ?thesis using Cons.IH Cons.prems(2) by blast
  qed
qed

lemma deliver_items_all_delivered:
  "\<forall>d \<in> set (deliver_items e t c pf i items). d_result d = Delivered \<Longrightarrow>
     delivered_links (deliver_items e t c pf i items) = map i_url items"
  by (induction items arbitrary: i) (auto simp: delivered_links_def split: if_splits)

lemma built_map_of:
  "map_of (build_scraped_items_map e keys) k =
     (if k \<in> set keys
      then Some (case scrape_zenmarket e k of
                   ScrapeRaised \<Rightarrow> ScrapeRaised
                 | ScrapeNone \<Rightarrow> ScrapeItems []
                 | ScrapeItems items \<Rightarrow> ScrapeItems items)
      else None)"
  by (induction keys) auto

lemma loaded_key_in_scrape_keys:
  "(t, w) \<in> set (loaded_tasks s) \<Longrightarrow> py_truthy (t_platform w) \<Longrightarrow> py_truthy (t_query w) \<Longrightarrow>
     scrape_key_of w \<in> set (scrape_keys s)"
proof -
  assume a: "(t, w) \<in> set (loaded_tasks s)" "py_truthy (t_platform w)" "py_truthy (t_query w)"
  have "scrape_key_of w \<in> fst ` set (group_tasks (loaded_tasks s) [])"
    unfolding group_keys using a by auto
  then show ?thesis by (simp add: scrape_keys_def)
qed

lemma process_task_step:
  assumes "(t, w) \<in> set (loaded_tasks s0)"
  shows "process_task e (loaded_notified s0) (build_scraped_items_map e (scrape_keys s0)) t w st =
           task_step e s0 t w st"
proof -
  obtain s made rm where st: "st = (s, made, rm)" by (cases st) auto
  have n: "map_of (loaded_notified s0) t = Some (notified_sets s0 t)"
    using assms by (rule loaded_notified_eq)
  show ?thesis
  proof (cases "t_chat_id w \<noteq> 0 \<and> py_truthy (t_platform w) \<and> py_truthy (t_query w)")
    case False
    then have "task_new_items e s0 t w = []" by (auto simp: task_new_items_def)
    then have "task_deliveries e s0 t w = []" by (simp add: task_deliveries_def)
    with False st show ?thesis
      by (auto simp: process_task_def task_step_def Let_def has_unreachable_def delivered_links_def)
  next
    case True
    then have k: "scrape_key_of w \<in> set (scrape_keys s0)"
      using assms loaded_key_in_scrape_keys by blast
    show ?thesis
    proof (cases "task_items e w = []")
      case e: True
      then have "task_new_items e s0 t w = []" by (simp add: task_new_items_def)
      then have tn: "task_deliveries e s0 t w = []" by (simp add: task_deliveries_def)
      from e have "scrape_zenmarket e (scrape_key_of w) = ScrapeRaised
          \<or> scrape_zenmarket e (scrape_key_of w) = ScrapeNone
          \<or> scrape_zenmarket e (scrape_key_of w) = ScrapeItems []"
        by (auto simp: task_items_def split: scrape_outcome.splits)
      then show ?thesis
        using True st k tn
        by (auto simp: process_task_def task_step_def Let_def has_unreachable_def
            delivered_links_def built_map_of)
    next
      case ne: False
      then obtain items where it: "scrape_zenmarket e (scrape_key_of w) = ScrapeItems items"
          and "items \<noteq> []" and ti: "task_items e w = items"
        by (auto simp: task_items_def split: scrape_outcome.splits)
      have ni: "task_new_items e s0 t w =
          fst (match_items (t_max_price w) (t_max_minutes_left w) (notified_sets s0 t) items)"
        using True ti by (simp add: task_new_items_def)
      show ?thesis
        using True st k it \<open>items \<noteq> []\<close> n
        by (simp add: process_task_def task_step_def Let_def built_map_of task_deliveries_def ni
            notify_items_eq)
    qed
  qed
qed

lemma task_loop_step_loop:
  "set tasks \<subseteq> set (loaded_tasks s0) \<Longrightarrow>
     task_loop e (loaded_notified s0) (build_scraped_items_map e (scrape_keys s0)) tasks st =
       step_loop e s0 tasks st"
proof (induction tasks arbitrary: st)
  case Nil
  show ?case by simp
next
  case (Cons p rest)
  obtain t w where p: "p = (t, w)" by (cases p)
  have "(t, w) \<in> set (loaded_tasks s0)" and "set rest \<subseteq> set (loaded_tasks s0)"
    using Cons.prems p by auto
  then show ?case
    by (simp add: p process_task_step Cons.IH)
qed

lemma loop_result_eq: "loop_result e s = step_loop e s (loaded_tasks s) (s, [], [])"
  by (simp add: loop_result_def task_loop_step_loop)

lemma sadd_set: "set (fst (sadd members xs)) = set members \<union> set xs"
proof (induction xs arbitrary: members)
  case Nil
  show ?case by simp
next
  case (Cons x xs)
  then show ?case by (auto simp: split_beta)
qed

lemma add_notified_items_store:
  "fst (add_notified_items s t urls) =
     s\<lparr>notified_sets := (notified_sets s)(t := fst (sadd (notified_sets s t) (map py_str_opt urls)))\<rparr>"
  by (simp add: add_notified_items_def MAX_NOTIFIED_HISTORY_PER_TASK_def Let_def)

lemma step_loop_made:
  "fst (snd (step_loop e s0 tasks (s, made, rm))) = made @ all_deliveries e s0 tasks"
proof (induction tasks arbitrary: s made rm)
  case Nil
  show ?case by (simp add: all_deliveries_def)
next
  case (Cons p rest)
  obtain t w where p: "p = (t, w)" by (cases p)
  show ?case
    by (simp add: p task_step_def Let_def Cons.IH all_deliveries_def)
qed

lemma step_loop_rm:
  "set (snd (snd (step_loop e s0 tasks (s, made, rm)))) =
     set rm \<union> {(t, t_chat_id w) | t w. (t, w) \<in> set tasks \<and> has_unreachable (task_deliveries e s0 t w)}"
proof (induction tasks arbitrary: s made rm)
  case Nil
  show ?case by simp
next
  case (Cons p rest)
  obtain t w where p: "p = (t, w)" by (cases p)
  show ?case
    unfolding p step_loop.simps task_step_def Let_def prod.case Cons.IH
    by (cases "has_unreachable (task_deliveries e s0 t w)") auto
qed

lemma task_step_store:
  "fst (task_step e s0 t w (s, made, rm)) =
     (if (t, t_chat_id w) \<notin> set rm \<and> \<not> has_unreachable (task_deliveries e s0 t w)
         \<and> delivered_links (task_deliveries e s0 t w) \<noteq> []
      then fst (add_notified_items s t (delivered_links (task_deliveries e s0 t w))) else s)"
  by (auto simp: task_step_def Let_def)

lemma task_step_frame:
  "\<exists>N. fst (task_step e s0 t w (s, made, rm)) = s\<lparr>notified_sets := N\<rparr>"
proof (cases "(t, t_chat_id w) \<notin> set rm \<and> \<not> has_unreachable (task_deliveries e s0 t w)
         \<and> delivered_links (task_deliveries e s0 t w) \<noteq> []")
  case True
  then have "fst (task_step e s0 t w (s, made, rm)) =
      s\<lparr>notified_sets := (notified_sets s)(t := fst (sadd (notified_sets s t)
         (map py_str_opt (delivered_links (task_deliveries e s0 t w)))))\<rparr>"
    by (simp add: task_step_store add_notified_items_store)
  then show ?thesis by blast
next
  case False
  then have "fst (task_step e s0 t w (s, made, rm)) = s\<lparr>notified_sets := notified_sets s\<rparr>"
    by (auto simp: task_step_store)
  then show ?thesis by blast
qed

lemma step_loop_frame:
  "\<exists>N. fst (step_loop e s0 tasks (s, made, rm)) = s\<lparr>notified_sets := N\<rparr>"
proof (induction tasks arbitrary: s made rm)
  case Nil
  have "fst (step_loop e s0 [] (s, made, rm)) = s\<lparr>notified_sets := notified_sets s\<rparr>"
    by simp
  then show ?case by blast
next
  case (Cons p rest)
  obtain t w where p: "p = (t, w)" by (cases p)
  obtain s1 made1 rm1 where ts: "task_step e s0 t w (s, made, rm) = (s1, made1, rm1)"
    by (cases "task_step e s0 t w (s, made, rm)") auto
  obtain N1 where n1: "s1 = s\<lparr>notified_sets := N1\<rparr>"
    using task_step_frame [of e s0 t w s made rm] ts by auto
  obtain N2 where "fst (step_loop e s0 rest (s1, made1, rm1)) = s1\<lparr>notified_sets := N2\<rparr>"
    using Cons.IH by blast
  then have "fst (step_loop e s0 (p # rest) (s, made, rm)) = s\<lparr>notified_sets := N2\<rparr>"
    by (simp add: p ts n1)
  then show ?case by blast
qed

lemma task_step_notified:
  "(t, t_chat_id w) \<notin> set rm \<Longrightarrow>
     notified_sets (fst (task_step e s0 t w (s, made, rm))) =
       (notified_sets s)(t := task_seen_after e s0 (notified_sets s t) t w)"
  by (auto simp: task_step_def Let_def add_notified_items_store task_seen_after_def fun_eq_iff)

lemma task_step_rm_subset:
  "set (snd (snd (task_step e s0 t w (s, made, rm)))) \<subseteq> insert (t, t_chat_id w) (set rm)"
  by (auto simp: task_step_def Let_def)

lemma step_loop_notified:
  assumes "distinct (map fst tasks)"
      and "\<forall>(t, w) \<in> set tasks. \<forall>c. (t, c) \<notin> set rm"
  shows "notified_sets (fst (step_loop e s0 tasks (s, made, rm))) x =
           (case map_of tasks x of
              None \<Rightarrow> notified_sets s x
            | Some w \<Rightarrow> task_seen_after e s0 (notified_sets s x) x w)"
  using assms
proof (induction tasks arbitrary: s made rm)
  case Nil
  then show ?case by simp
next
  case (Cons p rest)
  obtain t w where p: "p = (t, w)" by (cases p)
  obtain s1 made1 rm1 where ts: "task_step e s0 t w (s, made, rm) = (s1, made1, rm1)"
    by (cases "task_step e s0 t w (s, made, rm)") auto
  have t_rm: "(t, t_chat_id w) \<notin> set rm"
    using Cons.prems(2) p by auto
  have n1: "notified_sets s1 = (notified_sets s)(t := task_seen_after e s0 (notified_sets s t) t w)"
    using task_step_notified [OF t_rm, of e s0 s made] ts by simp
  have sub: "set rm1 \<subseteq> insert (t, t_chat_id w) (set rm)"
    using task_step_rm_subset [of e s0 t w s made rm] ts by simp
  have d: "distinct (map fst rest)" and tn: "t \<notin> fst ` set rest"
    using Cons.prems(1) p by auto
  have pre: "\<forall>(t', w') \<in> set rest. \<forall>c. (t', c) \<notin> set rm1"
  proof (clarify)
    fix t' w' c assume a: "(t', w') \<in> set rest" "(t', c) \<in> set rm1"
    then have "t' \<noteq> t" using tn by force
    moreover have "(t', c) \<notin> set rm" using Cons.prems(2) a(1) by auto
    ultimately show False using sub a(2) by auto
  qed
  have ih: "notified_sets (fst (step_loop e s0 rest (s1, made1, rm1))) x =
           (case map_of rest x of
              None \<Rightarrow> notified_sets s1 x
            | Some w \<Rightarrow> task_seen_after e s0 (notified_sets s1 x) x w)"
    by (rule Cons.IH [OF d pre])
  show ?case
  proof (cases "x = t")
    case True
    then have "map_of rest x = None" using tn by (simp add: map_of_eq_None_iff)
    with ih True p ts n1 show ?thesis by simp
  next
    case False
    with ih p ts n1 show ?thesis by (simp split: option.splits)
  qed
qed

lemma remove_task_notified:
  "notified_sets (fst (remove_task s t c)) x =
     (if x = t \<and> t \<in> set (chat_task_sets s c) then [] else notified_sets s x)"
  by (simp add: remove_task_def Let_def)

lemma remove_tasks_notified_other:
  "x \<notin> fst ` set rm \<Longrightarrow> notified_sets (remove_tasks s rm) x = notified_sets s x"
proof (induction rm arbitrary: s)
  case Nil
  show ?case by simp
next
  case (Cons p rm)
  obtain t c where p: "p = (t, c)" by (cases p)
  from Cons.prems p have "x \<noteq> t" and "x \<notin> fst ` set rm" by auto
  then show ?case
    by (simp add: p Cons.IH remove_task_notified)
qed

lemma remove_tasks_notified_subset:
  "set (notified_sets (remove_tasks s rm) x) \<subseteq> set (notified_sets s x)"
proof (induction rm arbitrary: s)
  case Nil
  show ?case by simp
next
  case (Cons p rm)
  obtain t c where p: "p = (t, c)" by (cases p)
  have "set (notified_sets (remove_tasks (fst (remove_task s t c)) rm) x)
          \<subseteq> set (notified_sets (fst (remove_task s t c)) x)"
    by (rule Cons.IH)
  also have "\<dots> \<subseteq> set (notified_sets s x)"
    by (simp add: remove_task_notified)
  finally show ?case by (simp add: p)
qed

lemma all_deliveries_task:
  "d \<in> set (all_deliveries e s0 tasks) \<Longrightarrow>
     \<exists>t w. (t, w) \<in> set tasks \<and> d \<in> set (task_deliveries e s0 t w)"
  by (auto simp: all_deliveries_def)

lemma task_deliveries_task:
  "d \<in> set (task_deliveries e s0 t w) \<Longrightarrow>
     d_task d = t \<and> d_chat d = t_chat_id w \<and> (\<exists>item \<in> set (task_new_items e s0 t w). d_link d = i_url item)"
  unfolding task_deliveries_def by (rule deliver_items_task)

lemma filter_task_deliveries:
  "filter (\<lambda>d. d_task d = x) (task_deliveries e s0 t w) =
     (if x = t then task_deliveries e s0 t w else [])"
proof -
  have "\<forall>d \<in> set (task_deliveries e s0 t w). d_task d = t"
    using task_deliveries_task by blast
  then show ?thesis
    by (auto simp: filter_empty_conv filter_id_conv)
qed

lemma filter_all_deliveries:
  "distinct (map fst tasks) \<Longrightarrow>
     filter (\<lambda>d. d_task d = x) (all_deliveries e s0 tasks) =
       (case map_of tasks x of None \<Rightarrow> [] | Some w \<Rightarrow> task_deliveries e s0 x w)"
proof (induction tasks)
  case Nil
  show ?case by (simp add: all_deliveries_def)
next
  case (Cons p tasks)
  obtain t w where p: "p = (t, w)" by (cases p)
  have ih: "filter (\<lambda>d. d_task d = x) (all_deliveries e s0 tasks) =
       (case map_of tasks x of None \<Rightarrow> [] | Some w \<Rightarrow> task_deliveries e s0 x w)"
    using Cons by simp
  have unf: "all_deliveries e s0 ((t, w) # tasks) = task_deliveries e s0 t w @ all_deliveries e s0 tasks"
    by (simp add: all_deliveries_def)
  show ?case
  proof (cases "x = t")
    case True
    then have "map_of tasks x = None"
      using Cons.prems p by (simp add: map_of_eq_None_iff)
    then show ?thesis
      using True ih by (simp add: unf filter_task_deliveries p)
  next
    case False
    then show ?thesis
      using ih by (simp add: unf filter_task_deliveries p)
  qed
qed

lemma cycle_deliveries:
  "gather e = GatherDone \<Longrightarrow>
     deliveries (check_monitoring_tasks e s) = all_deliveries e s (loaded_tasks s)"
  by (simp add: cycle_done loop_result_eq step_loop_made)

lemma task_new_items_filter:
  "item \<in> set (task_new_items e s t w) \<Longrightarrow>
     item \<in> set (task_items e w)
     \<and> item_match (t_max_price w) (t_max_minutes_left w) item
     \<and> py_str_opt (i_url item) \<notin> set (notified_sets s t)"
  by (auto simp: task_new_items_def match_items_filter split: if_splits)

lemma item_match_url: "item_match mp mm item \<Longrightarrow> \<exists>u. i_url item = Some u \<and> u \<noteq> []"
  by (auto simp: item_match_def py_truthy_def split: option.splits if_splits)

lemma delivered_urls_filter:
  "delivered_urls ds t = map py_str_opt (delivered_links (filter (\<lambda>d. d_task d = t) ds))"
  by (simp add: delivered_urls_def delivered_links_def conj_commute)

lemma marked_unreachable_filter:
  "marked_unreachable ds t \<longleftrightarrow> has_unreachable (filter (\<lambda>d. d_task d = t) ds)"
  by (auto simp: marked_unreachable_def has_unreachable_def list_ex_iff)

lemma cycle_done_store:
  assumes "gather e = GatherDone"
  shows "notified_sets (fst (loop_result e s)) x =
           (case map_of (loaded_tasks s) x of
              None \<Rightarrow> notified_sets s x
            | Some w \<Rightarrow> task_seen_after e s (notified_sets s x) x w)"
  unfolding loop_result_eq
  by (rule step_loop_notified) (simp_all add: loaded_tasks_distinct)

lemma loop_rm:
  "set (snd (snd (loop_result e s))) =
     {(t, t_chat_id w) | t w. (t, w) \<in> set (loaded_tasks s) \<and> has_unreachable (task_deliveries e s t w)}"
  by (simp add: loop_result_eq step_loop_rm)

lemma load_task_data_hashes:
  "task_hashes s' = task_hashes s \<Longrightarrow>
     fst (load_task_data s' ids tdm nim') = fst (load_task_data s ids tdm nim)"
  by (induction ids arbitrary: tdm nim nim') (auto split: option.splits)

lemma loaded_tasks_cong:
  "task_hashes s' = task_hashes s \<Longrightarrow> all_tasks s' = all_tasks s \<Longrightarrow>
     loaded_tasks s' = loaded_tasks s"
  by (simp add: loaded_tasks_def load_task_data_hashes)

lemma remove_tasks_Nil_set: "set rm = {} \<Longrightarrow> remove_tasks s rm = s"
  by simp

lemma all_deliveries_Nil:
  "(\<And>t w. (t, w) \<in> set tasks \<Longrightarrow> task_deliveries e s0 t w = []) \<Longrightarrow>
     all_deliveries e s0 tasks = []"
  by (auto simp: all_deliveries_def)

lemma task_deliveries_subset:
  "(t, w) \<in> set tasks \<Longrightarrow> set (task_deliveries e s0 t w) \<subseteq> set (all_deliveries e s0 tasks)"
  by (auto simp: all_deliveries_def)

lemma digit_not_space: "is_ascii_digit c \<Longrightarrow> \<not> is_py_space c"
  by (auto simp: is_ascii_digit_def is_py_space_def)

lemma digit_not_underscore: "is_ascii_digit c \<Longrightarrow> c \<noteq> CHR ''_''"
  by (auto simp: is_ascii_digit_def)

lemma digit_not_sign: "is_ascii_digit c \<Longrightarrow> c \<noteq> CHR ''-'' \<and> c \<noteq> CHR ''+''"
  by (auto simp: is_ascii_digit_def)

lemma dropWhile_digits: "py_isdigit m \<Longrightarrow> dropWhile is_py_space m = m"
  by (cases m) (auto simp: py_isdigit_def digit_not_space)

lemma py_isdigit_rev: "py_isdigit m \<Longrightarrow> py_isdigit (rev m)"
  by (simp add: py_isdigit_def list_all_iff)

lemma py_strip_digits: "py_isdigit m \<Longrightarrow> py_strip m = m"
  using dropWhile_digits [OF py_isdigit_rev] by (simp add: py_strip_def dropWhile_digits)

lemma drop_underscores_digits:
  "list_all is_ascii_digit m \<Longrightarrow> prev \<noteq> Some (CHR ''_'') \<Longrightarrow> drop_underscores prev m = Some m"
  by (induction m arbitrary: prev) (auto simp: digit_not_underscore)

lemma py_int_digits: "py_isdigit m \<Longrightarrow> py_int m = Some (int (digits_value m))"
proof -
  assume d: "py_isdigit m"
  then obtain c cs where m: "m = c # cs" and c: "is_ascii_digit c"
    by (cases m) (auto simp: py_isdigit_def)
  have "drop_underscores None m = Some m"
    using d by (simp add: drop_underscores_digits py_isdigit_def)
  moreover have "signed_int m = Some (int (digits_value m))"
    using d c digit_not_sign [OF c] by (simp add: signed_int_def m unsigned_int_def)
  ultimately show ?thesis
    using d by (simp add: py_int_def py_strip_digits)
qed

lemma those_map_Some:
  "(\<And>x. x \<in> set xs \<Longrightarrow> f x = Some (g x)) \<Longrightarrow> those (map f xs) = Some (map g xs)"
  by (induction xs) auto

lemma get_distinct_chat_ids_eq:
  "get_distinct_chat_ids s = map (\<lambda>m. int (digits_value m)) (filter py_isdigit (all_chats s))"
proof -
  have "those (map py_int (filter py_isdigit (all_chats s))) =
          Some (map (\<lambda>m. int (digits_value m)) (filter py_isdigit (all_chats s)))"
    by (rule those_map_Some) (simp add: py_int_digits)
  then show ?thesis by (simp add: get_distinct_chat_ids_def)
qed

lemma negative_not_isdigit: "c < 0 \<Longrightarrow> \<not> py_isdigit (py_str_int c)"
  by (simp add: py_str_int_def py_isdigit_def is_ascii_digit_def)

lemma sadd_member: "x \<in> set xs \<Longrightarrow> x \<in> set (fst (sadd members xs))"
  by (simp add: sadd_set)

lemma add_task_all_chats:
  "add_task s chat_id platform query max_price sort_options max_minutes_left = (s', Some task_id) \<Longrightarrow>
     py_str_int chat_id \<in> set (all_chats s')"
proof -
  assume a: "add_task s chat_id platform query max_price sort_options max_minutes_left = (s', Some task_id)"
  have "all_chats s' = fst (sadd (all_chats s) [py_str_int chat_id])"
    using a by (auto simp add: add_task_def Let_def simp del: hset.simps sadd.simps split: if_splits)
  then show ?thesis
    by (simp add: sadd_set)
qed

text \<open>
  \<^verbatim>\<open>int(str(i))\<close> is \<open>i\<close>, and a task that \<open>add_task\<close> has made is listed in the task
  set of its chat and in the set of all tasks, with that chat as the chat id that the
  parse reads back.
\<close>

lemma digit_char_props:
  "k < 10 \<Longrightarrow> is_ascii_digit (''0123456789'' ! k) \<and> digit_value (''0123456789'' ! k) = k"
proof -
  assume "k < 10"
  then have "k \<in> {0, 1, 2, 3, 4, 5, 6, 7, 8, 9}" by auto
  then show ?thesis
    by (auto simp: is_ascii_digit_def digit_value_def)
qed

lemma digits_of_nat_digits: "list_all is_ascii_digit (digits_of_nat n)"
proof (induction n rule: digits_of_nat.induct)
  case (1 n)
  show ?case
  proof (cases "n < 10")
    case True
    then show ?thesis
      by (subst digits_of_nat.simps) (simp add: digit_char_props)
  next
    case False
    then show ?thesis
      using 1 by (subst digits_of_nat.simps) (simp add: digit_char_props)
  qed
qed

lemma digits_of_nat_not_Nil: "digits_of_nat n \<noteq> []"
  by (subst digits_of_nat.simps) simp

lemma digits_value_snoc: "digits_value (ds @ [c]) = 10 * digits_value ds + digit_value c"
  by (simp add: digits_value_def)

lemma digits_value_digits_of_nat: "digits_value (digits_of_nat n) = n"
proof (induction n rule: digits_of_nat.induct)
  case (1 n)
  show ?case
  proof (cases "n < 10")
    case True
    then show ?thesis
      by (subst digits_of_nat.simps) (simp add: digit_char_props digits_value_def)
  next
    case False
    then show ?thesis
      using 1 by (subst digits_of_nat.simps) (simp add: digit_char_props digits_value_snoc)
  qed
qed

lemma py_isdigit_digits_of_nat: "py_isdigit (digits_of_nat n)"
  by (simp add: py_isdigit_def digits_of_nat_digits digits_of_nat_not_Nil)

lemma py_int_py_str_int: "py_int (py_str_int i) = Some i"
proof (cases "i < 0")
  case False
  then show ?thesis
    by (simp add: py_str_int_def py_int_digits py_isdigit_digits_of_nat digits_value_digits_of_nat)
next
  case True
  let ?ds = "digits_of_nat (nat (- i))"
  have sp: "py_strip (CHR ''-'' # ?ds) = CHR ''-'' # ?ds"
  proof -
    obtain c cs where r: "rev ?ds = c # cs"
      using digits_of_nat_not_Nil [of "nat (- i)"] by (cases "rev ?ds") auto
    have "list_all is_ascii_digit (rev ?ds)"
      by (simp add: digits_of_nat_digits list_all_iff [of _ "rev ?ds"] list_all_iff [symmetric])
    then have "\<not> is_py_space c"
      using r digit_not_space by simp
    then have "dropWhile is_py_space (rev ?ds @ [CHR ''-'']) = rev ?ds @ [CHR ''-'']"
      by (simp add: r)
    then show ?thesis
      by (simp add: py_strip_def is_py_space_def)
  qed
  have du: "drop_underscores None (CHR ''-'' # ?ds) = Some (CHR ''-'' # ?ds)"
    by (simp add: drop_underscores_digits digits_of_nat_digits)
  have "py_int (py_str_int i) = signed_int (CHR ''-'' # ?ds)"
    using True by (simp add: py_str_int_def py_int_def sp du del: drop_underscores.simps)
  also have "\<dots> = Some (- int (nat (- i)))"
    by (simp add: signed_int_def unsigned_int_def py_isdigit_digits_of_nat
        digits_value_digits_of_nat)
  finally show ?thesis
    using True by simp
qed

lemma hset_map_of:
  "map_of (fst (hset h fvs)) k =
     (if k \<in> fst ` set fvs then map_of (rev fvs) k else map_of h k)"
proof (induction fvs arbitrary: h)
  case Nil
  show ?case by simp
next
  case (Cons fv fvs)
  obtain f v where fv: "fv = (f, v)" by (cases fv)
  have step: "map_of (fst (hset h ((f, v) # fvs))) k =
      (if k \<in> fst ` set fvs then map_of (rev fvs) k else if k = f then Some v else map_of h k)"
    by (simp add: split_beta Cons.IH map_of_dict_put)
  show ?case
  proof (cases "k \<in> fst ` set fvs")
    case True
    then have "map_of (rev fvs) k \<noteq> None"
      by (simp add: map_of_eq_None_iff)
    then obtain x where "map_of (rev fvs) k = Some x" by auto
    with True show ?thesis
      by (simp add: step fv map_add_def del: hset.simps)
  next
    case False
    then have "map_of (rev fvs) k = None"
      by (simp add: map_of_eq_None_iff)
    with False show ?thesis
      by (auto simp add: step fv map_add_def simp del: hset.simps)
  qed
qed

lemma parse_chat_id:
  "parse_task_hash h = Some w \<Longrightarrow> get_int_or_0 h ''chat_id'' = Some (t_chat_id w)"
  by (auto simp: parse_task_hash_def Let_def split: option.splits if_splits)

lemma add_task_listed:
  assumes a: "add_task s chat_id platform query max_price sort_options max_minutes_left = (s', Some task_id)"
  shows "py_str_int task_id \<in> set (chat_task_sets s' chat_id)
       \<and> py_str_int task_id \<in> set (all_tasks s')
       \<and> (\<forall>w. parse_task_hash (task_hashes s' (py_str_int task_id)) = Some w \<longrightarrow> t_chat_id w = chat_id)"
proof -
  let ?data = "[(''id'', py_str_int task_id),
             (''chat_id'', py_str_int chat_id),
             (''platform'', platform),
             (''query'', query),
             (''max_price'', max_price),
             (''sort_options'', if py_truthy sort_options then py_str_opt sort_options else ''''),
             (''max_minutes_left'',
                case max_minutes_left of None \<Rightarrow> '''' | Some m \<Rightarrow> py_str_int m)]"
  have tid: "task_id = next_task_id s + 1"
    using a by (auto simp add: add_task_def Let_def simp del: hset.simps sadd.simps split: if_splits)
  have f: "chat_task_sets s' chat_id = fst (sadd (chat_task_sets s chat_id) [py_str_int task_id])"
      "all_tasks s' = fst (sadd (all_tasks s) [py_str_int task_id])"
      "task_hashes s' (py_str_int task_id) = fst (hset (task_hashes s (py_str_int task_id)) ?data)"
    using a by (auto simp add: add_task_def Let_def simp del: hset.simps sadd.simps split: if_splits)
  have "map_of (task_hashes s' (py_str_int task_id)) ''chat_id'' = Some (py_str_int chat_id)"
    unfolding f(3) hset_map_of by simp
  then have "get_int_or_0 (task_hashes s' (py_str_int task_id)) ''chat_id'' = Some chat_id"
    by (simp add: get_int_or_0_def py_int_py_str_int)
  then have "\<forall>w. parse_task_hash (task_hashes s' (py_str_int task_id)) = Some w \<longrightarrow> t_chat_id w = chat_id"
    using parse_chat_id by fastforce
  then show ?thesis
    by (simp add: f sadd_set)
qed

lemma parse_None_iff:
  "parse_task_hash h = None \<longleftrightarrow>
     h = []
     \<or> (\<exists>v. map_of h ''id'' = Some v \<and> py_int v = None)
     \<or> (\<exists>v. map_of h ''chat_id'' = Some v \<and> py_int v = None)
     \<or> (\<exists>v. map_of h ''max_price'' = Some v \<and> py_float v = None)"
  by (auto simp: parse_task_hash_def get_int_or_0_def get_float_or_0_def Let_def py_int_digits
      split: option.splits)

lemma parse_defaults:
  "parse_task_hash h = Some w \<Longrightarrow>
     (map_of h ''id'' = None \<longrightarrow> t_id w = 0)
     \<and> (map_of h ''chat_id'' = None \<longrightarrow> t_chat_id w = 0)
     \<and> (map_of h ''max_price'' = None \<longrightarrow> t_max_price w = Finite 0)
     \<and> t_platform w = map_of h ''platform''
     \<and> t_query w = map_of h ''query''"
  by (auto simp: parse_task_hash_def get_int_or_0_def get_float_or_0_def Let_def
      split: option.splits if_splits)

lemma deliveries_complete_task:
  assumes "d \<in> set (deliveries (check_monitoring_tasks e s))"
  shows "\<exists>w. d_task d \<in> set (all_tasks s) \<and> parse_task_hash (task_hashes s (d_task d)) = Some w
            \<and> t_chat_id w \<noteq> 0 \<and> py_truthy (t_platform w) \<and> py_truthy (t_query w)"
proof (cases "gather e = GatherDone")
  case False
  with assms show ?thesis by (simp add: cycle_not_done)
next
  case True
  with assms have "d \<in> set (all_deliveries e s (loaded_tasks s))"
    by (simp add: cycle_deliveries)
  then obtain t w where tw: "(t, w) \<in> set (loaded_tasks s)" and d: "d \<in> set (task_deliveries e s t w)"
    using all_deliveries_task by blast
  from d have dt: "d_task d = t" and "task_new_items e s t w \<noteq> []"
    using task_deliveries_task by fastforce+
  then have "t_chat_id w \<noteq> 0 \<and> py_truthy (t_platform w) \<and> py_truthy (t_query w)"
    by (auto simp: task_new_items_def split: if_splits)
  with tw dt show ?thesis
    by (auto simp: loaded_tasks_iff)
qed

lemma remove_task_fields:
  "chat_task_sets (fst (remove_task s t' c')) c =
     (if t' \<in> set (chat_task_sets s c') \<and> c = c'
      then removeAll t' (chat_task_sets s c) else chat_task_sets s c)"
  "all_tasks (fst (remove_task s t' c')) =
     (if t' \<in> set (chat_task_sets s c') then removeAll t' (all_tasks s) else all_tasks s)"
  "task_hashes (fst (remove_task s t' c')) t =
     (if t' \<in> set (chat_task_sets s c') \<and> t = t' then [] else task_hashes s t)"
  by (simp_all add: remove_task_def Let_def srem_def)

lemma remove_task_gone_keep: "task_gone s t \<Longrightarrow> task_gone (fst (remove_task s t' c')) t"
  by (simp add: task_gone_def remove_task_fields remove_task_notified)

lemma remove_task_gone: "t \<in> set (chat_task_sets s c) \<Longrightarrow> task_gone (fst (remove_task s t c)) t"
  by (simp add: task_gone_def remove_task_fields remove_task_notified)

lemma remove_task_listed_keep:
  "task_gone s t \<or> t \<in> set (chat_task_sets s c) \<Longrightarrow>
     task_gone (fst (remove_task s t' c')) t \<or> t \<in> set (chat_task_sets (fst (remove_task s t' c')) c)"
  by (auto simp: task_gone_def remove_task_fields remove_task_notified)

lemma remove_tasks_gone_keep: "task_gone s t \<Longrightarrow> task_gone (remove_tasks s rm) t"
proof (induction rm arbitrary: s)
  case Nil
  then show ?case by simp
next
  case (Cons p rm)
  obtain t' c' where p: "p = (t', c')" by (cases p)
  show ?case
    using Cons.IH [OF remove_task_gone_keep [OF Cons.prems]] by (simp add: p)
qed

lemma remove_tasks_gone:
  "(t, c) \<in> set rm \<Longrightarrow> task_gone s t \<or> t \<in> set (chat_task_sets s c) \<Longrightarrow>
     task_gone (remove_tasks s rm) t"
proof (induction rm arbitrary: s)
  case Nil
  then show ?case by simp
next
  case (Cons p rm)
  obtain t' c' where p: "p = (t', c')" by (cases p)
  show ?case
  proof (cases "(t, c) = (t', c')")
    case True
    have "task_gone (fst (remove_task s t c)) t"
      using Cons.prems(2) remove_task_gone remove_task_gone_keep by blast
    then show ?thesis
      using True p by (simp add: remove_tasks_gone_keep)
  next
    case False
    then have "(t, c) \<in> set rm" using Cons.prems(1) p by auto
    moreover have "task_gone (fst (remove_task s t' c')) t
        \<or> t \<in> set (chat_task_sets (fst (remove_task s t' c')) c)"
      using Cons.prems(2) by (rule remove_task_listed_keep)
    ultimately show ?thesis
      using Cons.IH p by simp
  qed
qed

lemma delivery_origin:
  assumes "d \<in> set (deliveries (check_monitoring_tasks e s))"
  shows "gather e = GatherDone
         \<and> (\<exists>w. map_of (loaded_tasks s) (d_task d) = Some w \<and> d_chat d = t_chat_id w
                \<and> d \<in> set (task_deliveries e s (d_task d) w))"
proof (cases "gather e = GatherDone")
  case False
  with assms show ?thesis by (simp add: cycle_not_done)
next
  case True
  with assms have "d \<in> set (all_deliveries e s (loaded_tasks s))"
    by (simp add: cycle_deliveries)
  then obtain t w where tw: "(t, w) \<in> set (loaded_tasks s)" and d: "d \<in> set (task_deliveries e s t w)"
    using all_deliveries_task by blast
  from d have "d_task d = t" "d_chat d = t_chat_id w"
    using task_deliveries_task by blast+
  moreover have "map_of (loaded_tasks s) t = Some w"
    using tw loaded_tasks_distinct by simp
  ultimately show ?thesis using True d by auto
qed

lemmas py_num_defs =
  py_int_def py_float_def py_strip_def is_py_space_def is_ascii_digit_def signed_int_def
  unsigned_int_def py_isdigit_def digits_value_def digit_value_def unsigned_float_def
  decimal_float_def inf_or_nan_def float_of_real_def float_neg_def float_exponent_def pow10_def
  py_lower_def lower_char_def

lemma parse_hash_1: "parse_task_hash hash_1 = Some watch_1"
  by (simp add: parse_task_hash_def hash_1_def watch_1_def get_int_or_0_def get_float_or_0_def
      py_truthy_def py_num_defs)

lemma parse_hash_2: "parse_task_hash hash_2 = Some watch_2"
  by (simp add: parse_task_hash_def hash_2_def watch_2_def get_int_or_0_def get_float_or_0_def
      py_truthy_def py_num_defs)

lemma parse_hash_3: "parse_task_hash hash_3 = Some watch_3"
  by (simp add: parse_task_hash_def hash_3_def watch_3_def get_int_or_0_def get_float_or_0_def
      py_truthy_def py_num_defs)

lemma loaded_tasks_ex:
  "loaded_tasks store_ex = [(''1'', watch_1), (''2'', watch_2), (''3'', watch_3)]"
  by (simp add: loaded_tasks_def store_ex_def parse_hash_1 parse_hash_2 parse_hash_3)

lemma loaded_tasks_ex_upd:
  "loaded_tasks (store_ex\<lparr>notified_sets := N\<rparr>) = [(''1'', watch_1), (''2'', watch_2), (''3'', watch_3)]"
  using loaded_tasks_cong [of "store_ex\<lparr>notified_sets := N\<rparr>" store_ex]
  by (simp add: loaded_tasks_ex)

lemmas watch_defs = watch_1_def watch_2_def watch_3_def

lemmas item_defs = item_u1_def item_u2_def item_y1_def item_y2_def

lemmas eval_defs =
  task_deliveries_def task_new_items_def task_items_def scrape_key_of_def scrape_ex_def
  item_match_def py_truthy_def py_str_opt_def send_item_def py_startswith_def py_lower_def
  lower_char_def photo_error_indicators_def

lemma deliveries_1_ok:
  "bot_send e = (\<lambda>t i k. Sent) \<Longrightarrow> scrape_zenmarket e = scrape_ex \<Longrightarrow>
   task_deliveries e store_ex ''1'' watch_1 =
     [\<lparr>d_task = ''1'', d_chat = 7, d_link = Some ''u1'',
        d_calls = [(SendPhoto, Sent)], d_result = Delivered\<rparr>,
      \<lparr>d_task = ''1'', d_chat = 7, d_link = Some ''u2'',
        d_calls = [(SendMessageMarkdown, Sent)], d_result = Delivered\<rparr>]"
  by (simp add: eval_defs watch_defs item_defs store_ex_def)

lemma deliveries_2_ok:
  "bot_send e ''2'' = (\<lambda>i k. Sent) \<Longrightarrow> scrape_zenmarket e = scrape_ex \<Longrightarrow>
   task_deliveries e store_ex ''2'' watch_2 =
     [\<lparr>d_task = ''2'', d_chat = - 8, d_link = Some ''u1'',
        d_calls = [(SendPhoto, Sent)], d_result = Delivered\<rparr>]"
  by (simp add: eval_defs watch_defs item_defs store_ex_def)

lemma deliveries_3_ok:
  "bot_send e ''3'' = (\<lambda>i k. Sent) \<Longrightarrow>
   scrape_zenmarket e (Some ''yahoo'', Some ''miku'', Some ''sort=endtime&order=asc'')
     = ScrapeItems [item_y1, item_y2] \<Longrightarrow>
   task_deliveries e store_ex ''3'' watch_3 =
     [\<lparr>d_task = ''3'', d_chat = 7, d_link = Some ''y1'',
        d_calls = [(SendMessageMarkdown, Sent)], d_result = Delivered\<rparr>]"
  by (simp add: eval_defs watch_defs item_defs store_ex_def)

lemma deliveries_1_blocked:
  "task_deliveries env_blocked store_ex ''1'' watch_1 =
     [\<lparr>d_task = ''1'', d_chat = 7, d_link = Some ''u1'',
        d_calls = [(SendPhoto, Sent)], d_result = Delivered\<rparr>,
      \<lparr>d_task = ''1'', d_chat = 7, d_link = Some ''u2'',
        d_calls = [(SendMessageMarkdown, Forbidden)], d_result = Unreachable\<rparr>]"
  by (simp add: eval_defs watch_defs item_defs store_ex_def env_blocked_def)

lemma deliveries_1_fallback_blocked:
  "task_deliveries env_fallback_blocked store_ex ''1'' watch_1 =
     [\<lparr>d_task = ''1'', d_chat = 7, d_link = Some ''u1'',
        d_calls = [(SendPhoto, BadRequest ''Wrong file identifier/HTTP URL specified''),
                   (SendMessageMarkdown, Forbidden)],
        d_result = NotDelivered\<rparr>,
      \<lparr>d_task = ''1'', d_chat = 7, d_link = Some ''u2'',
        d_calls = [(SendMessageMarkdown, Sent)], d_result = Delivered\<rparr>]"
  by (simp add: eval_defs watch_defs item_defs store_ex_def env_fallback_blocked_def)

lemma item_match_iff:
  "item_match task_max_price task_max_minutes item \<longleftrightarrow>
     py_truthy (i_url item)
     \<and> (\<exists>p. i_price item = Some p \<and> float_le p task_max_price)
     \<and> (case task_max_minutes of
          None \<Rightarrow> True
        | Some m \<Rightarrow> \<exists>l. i_minutes_left item = Some l \<and> l \<noteq> - 1 \<and> l \<le> m)"
  by (auto simp: item_match_def Let_def split: option.splits)

lemma unreachable_task_removed:
  assumes d: "d \<in> set (deliveries (check_monitoring_tasks e s))"
      and un: "d_result d = Unreachable"
      and listed: "d_task d \<in> set (chat_task_sets s (d_chat d))"
  shows "task_gone (store_after (check_monitoring_tasks e s)) (d_task d)"
proof -
  let ?L = "loop_result e s"
  obtain w where g: "gather e = GatherDone" and mo: "map_of (loaded_tasks s) (d_task d) = Some w"
      and c: "d_chat d = t_chat_id w" and dt: "d \<in> set (task_deliveries e s (d_task d) w)"
    using delivery_origin [OF d] by blast
  have tw: "(d_task d, w) \<in> set (loaded_tasks s)"
    using mo by (rule map_of_SomeD)
  have hu: "has_unreachable (task_deliveries e s (d_task d) w)"
    using dt un by (auto simp: has_unreachable_def)
  have st: "store_after (check_monitoring_tasks e s) = remove_tasks (fst ?L) (snd (snd ?L))"
    using g by (rule cycle_done)
  have "(d_task d, d_chat d) \<in> set (snd (snd ?L))"
    unfolding loop_rm using tw hu c by auto
  moreover obtain N where "fst ?L = s\<lparr>notified_sets := N\<rparr>"
    unfolding loop_result_eq using step_loop_frame by blast
  then have "d_task d \<in> set (chat_task_sets (fst ?L) (d_chat d))"
    using listed by simp
  ultimately show ?thesis
    unfolding st using remove_tasks_gone by blast
qed

lemma no_unreachable_store:
  assumes "list_all (\<lambda>d. d_result d \<noteq> Unreachable) (deliveries (check_monitoring_tasks e s))"
  shows "\<exists>N. store_after (check_monitoring_tasks e s) = s\<lparr>notified_sets := N\<rparr>"
proof (cases "gather e = GatherDone")
  case False
  then have "store_after (check_monitoring_tasks e s) = s\<lparr>notified_sets := notified_sets s\<rparr>"
    by (simp add: cycle_not_done)
  then show ?thesis by blast
next
  case True
  let ?L = "loop_result e s"
  have del: "deliveries (check_monitoring_tasks e s) = all_deliveries e s (loaded_tasks s)"
    using True by (rule cycle_deliveries)
  have "\<not> has_unreachable (task_deliveries e s t w)" if "(t, w) \<in> set (loaded_tasks s)" for t w
  proof
    assume "has_unreachable (task_deliveries e s t w)"
    then obtain d where "d \<in> set (task_deliveries e s t w)" "d_result d = Unreachable"
      by (auto simp: has_unreachable_def)
    with task_deliveries_subset [OF that, of e s] assms del show False
      by (auto simp: list_all_iff)
  qed
  then have "set (snd (snd ?L)) = {}"
    unfolding loop_rm by auto
  then have "store_after (check_monitoring_tasks e s) = fst ?L"
    using True by (simp add: cycle_done)
  then show ?thesis
    unfolding loop_result_eq using step_loop_frame by simp
qed

subsection \<open>The cycle on the example store\<close>

lemma store_ex_fields:
  "notified_sets store_ex ''1'' = []" "notified_sets store_ex ''2'' = [''u2'']"
  "notified_sets store_ex ''3'' = []"
  "chat_task_sets store_ex 7 = [''1'', ''3'']" "chat_task_sets store_ex (- 8) = [''2'']"
  "all_tasks store_ex = [''1'', ''2'', ''3'']" "all_chats store_ex = [''7'', ''-8'']"
  "task_hashes store_ex ''1'' = hash_1" "task_hashes store_ex ''2'' = hash_2"
  "task_hashes store_ex ''3'' = hash_3"
  by (simp_all add: store_ex_def)

lemma gather_ex:
  "gather env_ok = GatherDone" "gather env_blocked = GatherDone"
  "gather env_fallback_blocked = GatherDone" "gather env_partial = GatherDone"
  "gather env_timeout = GatherTimeout"
  by (simp_all add: env_ok_def env_blocked_def env_fallback_blocked_def env_partial_def
      env_timeout_def)

lemma deliveries_ex_ok:
  "deliveries (check_monitoring_tasks env_ok store_ex) =
     [\<lparr>d_task = ''1'', d_chat = 7, d_link = Some ''u1'',
        d_calls = [(SendPhoto, Sent)], d_result = Delivered\<rparr>,
      \<lparr>d_task = ''1'', d_chat = 7, d_link = Some ''u2'',
        d_calls = [(SendMessageMarkdown, Sent)], d_result = Delivered\<rparr>,
      \<lparr>d_task = ''2'', d_chat = - 8, d_link = Some ''u1'',
        d_calls = [(SendPhoto, Sent)], d_result = Delivered\<rparr>,
      \<lparr>d_task = ''3'', d_chat = 7, d_link = Some ''y1'',
        d_calls = [(SendMessageMarkdown, Sent)], d_result = Delivered\<rparr>]"
proof -
  have b: "bot_send env_ok = (\<lambda>t i k. Sent)" and s: "scrape_zenmarket env_ok = scrape_ex"
    by (simp_all add: env_ok_def)
  have y: "scrape_zenmarket env_ok (Some ''yahoo'', Some ''miku'', Some ''sort=endtime&order=asc'')
      = ScrapeItems [item_y1, item_y2]"
    by (simp add: s scrape_ex_def)
  show ?thesis
    by (simp add: cycle_deliveries gather_ex all_deliveries_def loaded_tasks_ex
        deliveries_1_ok [OF b s] deliveries_2_ok [OF _ s] deliveries_3_ok [OF _ y] b)
qed

lemma deliveries_ex_blocked:
  "deliveries (check_monitoring_tasks env_blocked store_ex) =
     [\<lparr>d_task = ''1'', d_chat = 7, d_link = Some ''u1'',
        d_calls = [(SendPhoto, Sent)], d_result = Delivered\<rparr>,
      \<lparr>d_task = ''1'', d_chat = 7, d_link = Some ''u2'',
        d_calls = [(SendMessageMarkdown, Forbidden)], d_result = Unreachable\<rparr>,
      \<lparr>d_task = ''2'', d_chat = - 8, d_link = Some ''u1'',
        d_calls = [(SendPhoto, Sent)], d_result = Delivered\<rparr>,
      \<lparr>d_task = ''3'', d_chat = 7, d_link = Some ''y1'',
        d_calls = [(SendMessageMarkdown, Sent)], d_result = Delivered\<rparr>]"
proof -
  have s: "scrape_zenmarket env_blocked = scrape_ex"
    by (simp add: env_blocked_def)
  have b2: "bot_send env_blocked ''2'' = (\<lambda>i k. Sent)" and b3: "bot_send env_blocked ''3'' = (\<lambda>i k. Sent)"
    by (simp_all add: env_blocked_def)
  have y: "scrape_zenmarket env_blocked (Some ''yahoo'', Some ''miku'', Some ''sort=endtime&order=asc'')
      = ScrapeItems [item_y1, item_y2]"
    by (simp add: s scrape_ex_def)
  show ?thesis
    by (simp add: cycle_deliveries gather_ex all_deliveries_def loaded_tasks_ex
        deliveries_1_blocked deliveries_2_ok [OF b2 s] deliveries_3_ok [OF b3 y])
qed

lemma deliveries_ex_fallback_blocked:
  "deliveries (check_monitoring_tasks env_fallback_blocked store_ex) =
     [\<lparr>d_task = ''1'', d_chat = 7, d_link = Some ''u1'',
        d_calls = [(SendPhoto, BadRequest ''Wrong file identifier/HTTP URL specified''),
                   (SendMessageMarkdown, Forbidden)],
        d_result = NotDelivered\<rparr>,
      \<lparr>d_task = ''1'', d_chat = 7, d_link = Some ''u2'',
        d_calls = [(SendMessageMarkdown, Sent)], d_result = Delivered\<rparr>,
      \<lparr>d_task = ''2'', d_chat = - 8, d_link = Some ''u1'',
        d_calls = [(SendPhoto, Sent)], d_result = Delivered\<rparr>,
      \<lparr>d_task = ''3'', d_chat = 7, d_link = Some ''y1'',
        d_calls = [(SendMessageMarkdown, Sent)], d_result = Delivered\<rparr>]"
proof -
  have s: "scrape_zenmarket env_fallback_blocked = scrape_ex"
    by (simp add: env_fallback_blocked_def)
  have b2: "bot_send env_fallback_blocked ''2'' = (\<lambda>i k. Sent)"
    and b3: "bot_send env_fallback_blocked ''3'' = (\<lambda>i k. Sent)"
    by (simp_all add: env_fallback_blocked_def)
  have y: "scrape_zenmarket env_fallback_blocked
             (Some ''yahoo'', Some ''miku'', Some ''sort=endtime&order=asc'')
      = ScrapeItems [item_y1, item_y2]"
    by (simp add: s scrape_ex_def)
  show ?thesis
    by (simp add: cycle_deliveries gather_ex all_deliveries_def loaded_tasks_ex
        deliveries_1_fallback_blocked deliveries_2_ok [OF b2 s] deliveries_3_ok [OF b3 y])
qed

lemma active_key_ex:
  "active_key store_ex (Some ''mercari'', Some ''holo plush'', Some ''LaunchDate'')"
  unfolding active_key_def
  by (rule bexI [of _ "''1''"], rule exI [of _ watch_1])
     (simp_all add: store_ex_def parse_hash_1 watch_1_def py_truthy_def scrape_key_of_def)

lemma parse_hash_bare:
  "parse_task_hash hash_bare =
     Some \<lparr>t_id = 0, t_chat_id = 0, t_platform = Some ''mercari'',
           t_query = Some ''holo plush'', t_max_price = Finite 0,
           t_sort_options = None, t_max_minutes_left = None\<rparr>"
  by (simp add: parse_task_hash_def hash_bare_def get_int_or_0_def get_float_or_0_def py_truthy_def)

lemma py_int_x1: "py_int ''x1'' = None"
  by (simp add: py_num_defs)

lemma py_int_sep: "py_int [CHR 0x1C, CHR ''5''] = None"
  by (simp add: py_num_defs)

lemma py_float_special:
  "py_float ''inf'' = Some PosInf" "py_float ''-Infinity'' = Some NegInf"
  "py_float ''nan'' = Some NaN" "py_float ''1e400'' = Some PosInf"
  "py_float ''2.5'' = Some (Finite (5 / 2))" "py_float [CHR 0x1C, CHR ''5''] = None"
  by (simp_all add: py_num_defs)

lemma parse_hash_inf: "parse_task_hash hash_inf = Some watch_inf"
  by (simp add: parse_task_hash_def hash_inf_def watch_inf_def get_int_or_0_def get_float_or_0_def
      py_truthy_def py_num_defs)

lemma loaded_tasks_inf: "loaded_tasks store_inf = [(''4'', watch_inf)]"
  by (simp add: loaded_tasks_def store_inf_def parse_hash_inf)

lemma scrapes_inf:
  "scrapes (check_monitoring_tasks env_ok store_inf) =
     [(Some ''mercari'', Some ''holo plush'', Some ''LaunchDate'')]"
  by (simp add: cycle_scrapes scrape_keys_def loaded_tasks_inf watch_inf_def py_truthy_def
      scrape_key_of_def)

lemma deliveries_inf:
  "deliveries (check_monitoring_tasks env_ok store_inf) =
     [\<lparr>d_task = ''4'', d_chat = 7, d_link = Some ''u1'',
        d_calls = [(SendPhoto, Sent)], d_result = Delivered\<rparr>,
      \<lparr>d_task = ''4'', d_chat = 7, d_link = Some ''u2'',
        d_calls = [(SendMessageMarkdown, Sent)], d_result = Delivered\<rparr>]"
proof -
  have b: "bot_send env_ok = (\<lambda>t i k. Sent)" and s: "scrape_zenmarket env_ok = scrape_ex"
    by (simp_all add: env_ok_def)
  have "task_deliveries env_ok store_inf ''4'' watch_inf =
     [\<lparr>d_task = ''4'', d_chat = 7, d_link = Some ''u1'',
        d_calls = [(SendPhoto, Sent)], d_result = Delivered\<rparr>,
      \<lparr>d_task = ''4'', d_chat = 7, d_link = Some ''u2'',
        d_calls = [(SendMessageMarkdown, Sent)], d_result = Delivered\<rparr>]"
    by (simp add: eval_defs watch_inf_def item_defs store_inf_def b s)
  then show ?thesis
    by (simp add: cycle_deliveries gather_ex all_deliveries_def loaded_tasks_inf)
qed

lemma chat_ids_ex: "filter py_isdigit [''7'', ''-8''] = [''7'']"
  by (simp add: py_isdigit_def is_ascii_digit_def)

lemma hash_fields_ex:
  "map_of hash_bad_id ''id'' = Some ''x1''" "map_of hash_bare ''chat_id'' = None"
  "map_of hash_sep ''id'' = Some [CHR 0x1C, CHR ''5'']" "map_of hash_inf ''max_price'' = Some ''inf''"
  by (simp_all add: hash_bad_id_def hash_bare_def hash_sep_def hash_inf_def)

lemma py_str_int_ex: "py_str_int (- 8) = ''-8''" "py_str_int 4 = ''4''"
  by (simp_all add: py_str_int_def digits_of_nat.simps)

lemma add_task_ex:
  "snd (add_task store_ex (- 8) ''yahoo'' ''miku'' ''100.0'' None None) = Some 4"
  by (simp add: add_task_def Let_def store_ex_def py_str_int_ex py_truthy_def)
section \<open>The properties\<close>

subsection \<open>C1: the seen set and successful deliveries\<close>

text \<open>
  Counterexample to C1 as stated. The first watch gets \<open>u1\<close> delivered, then the call
  for \<open>u2\<close> is answered \<^verbatim>\<open>Forbidden\<close>: the watch is scheduled for removal, the write
  of its seen set is skipped, and \<open>u1\<close>, though delivered, is in no seen set when the
  cycle ends.
\<close>

theorem delivered_not_persisted_counterexample:
  "\<lparr>d_task = ''1'', d_chat = 7, d_link = Some ''u1'',
     d_calls = [(SendPhoto, Sent)], d_result = Delivered\<rparr>
     \<in> set (deliveries (check_monitoring_tasks env_blocked store_ex))
   \<and> ''u1'' \<notin> set (notified_sets (store_after (check_monitoring_tasks env_blocked store_ex)) ''1'')"
proof -
  let ?d = "\<lparr>d_task = ''1'', d_chat = 7, d_link = Some ''u2'',
              d_calls = [(SendMessageMarkdown, Forbidden)], d_result = Unreachable\<rparr>"
  have "?d \<in> set (deliveries (check_monitoring_tasks env_blocked store_ex))"
    by (simp add: deliveries_ex_blocked)
  moreover have "d_task ?d \<in> set (chat_task_sets store_ex (d_chat ?d))"
    by (simp add: store_ex_fields)
  ultimately have "task_gone (store_after (check_monitoring_tasks env_blocked store_ex)) (d_task ?d)"
    using unreachable_task_removed [of ?d env_blocked store_ex] by simp
  then show ?thesis
    by (simp add: task_gone_def deliveries_ex_blocked)
qed

text \<open>
  C1, amended. For every watch, a cycle adds to its seen set only urls of items whose
  delivery succeeded in that cycle; and for a watch none of whose deliveries ended in
  the handler of \<^verbatim>\<open>Forbidden\<close>, the seen set after the cycle is exactly the seen set
  before it together with the urls of the items delivered. (For a watch that is
  scheduled for removal the write is skipped, also for the items delivered before.)
\<close>

theorem seen_iff_delivered_unless_removed:
  "set (notified_sets (store_after (check_monitoring_tasks e s)) t)
     \<subseteq> set (notified_sets s t) \<union> set (delivered_urls (deliveries (check_monitoring_tasks e s)) t)
   \<and> (\<not> marked_unreachable (deliveries (check_monitoring_tasks e s)) t \<longrightarrow>
        set (notified_sets (store_after (check_monitoring_tasks e s)) t)
          = set (notified_sets s t) \<union> set (delivered_urls (deliveries (check_monitoring_tasks e s)) t))"
proof (cases "gather e = GatherDone")
  case False
  then show ?thesis
    by (simp add: cycle_not_done delivered_urls_def)
next
  case True
  let ?r = "check_monitoring_tasks e s"
  let ?L = "loop_result e s"
  have del: "filter (\<lambda>d. d_task d = t) (deliveries ?r) =
      (case map_of (loaded_tasks s) t of None \<Rightarrow> [] | Some w \<Rightarrow> task_deliveries e s t w)"
    using True by (simp add: cycle_deliveries filter_all_deliveries loaded_tasks_distinct)
  have st: "store_after ?r = remove_tasks (fst ?L) (snd (snd ?L))"
    using True by (rule cycle_done)
  have n1: "notified_sets (fst ?L) t =
           (case map_of (loaded_tasks s) t of
              None \<Rightarrow> notified_sets s t
            | Some w \<Rightarrow> task_seen_after e s (notified_sets s t) t w)"
    using True by (rule cycle_done_store)
  have sub1: "set (notified_sets (fst ?L) t)
      \<subseteq> set (notified_sets s t) \<union> set (delivered_urls (deliveries ?r) t)"
    by (auto simp: n1 delivered_urls_filter del task_seen_after_def sadd_set split: option.splits)
  have part1: "set (notified_sets (store_after ?r) t)
      \<subseteq> set (notified_sets s t) \<union> set (delivered_urls (deliveries ?r) t)"
    using remove_tasks_notified_subset [of "fst ?L" "snd (snd ?L)" t] sub1 st by auto
  have part2: "set (notified_sets (store_after ?r) t)
          = set (notified_sets s t) \<union> set (delivered_urls (deliveries ?r) t)"
    if nm: "\<not> marked_unreachable (deliveries ?r) t"
  proof -
    have "t \<notin> fst ` set (snd (snd ?L))"
    proof
      assume "t \<in> fst ` set (snd (snd ?L))"
      then obtain w where lw: "(t, w) \<in> set (loaded_tasks s)"
          and hu: "has_unreachable (task_deliveries e s t w)"
        unfolding loop_rm by auto
      from lw have "map_of (loaded_tasks s) t = Some w"
        using loaded_tasks_distinct by simp
      with hu nm show False
        by (simp add: marked_unreachable_filter del)
    qed
    then have "notified_sets (store_after ?r) t = notified_sets (fst ?L) t"
      by (simp add: st remove_tasks_notified_other)
    moreover have "set (notified_sets (fst ?L) t)
        = set (notified_sets s t) \<union> set (delivered_urls (deliveries ?r) t)"
      using nm
      by (auto simp: n1 delivered_urls_filter marked_unreachable_filter del task_seen_after_def
          sadd_set delivered_links_def split: option.splits)
    ultimately show ?thesis by simp
  qed
  from part1 part2 show ?thesis by blast
qed

text \<open>Witness: the second watch in the same cycle, which is not scheduled for removal.\<close>

theorem seen_iff_delivered_unless_removed_witness:
  "\<not> marked_unreachable (deliveries (check_monitoring_tasks env_blocked store_ex)) ''2''
   \<and> set (notified_sets (store_after (check_monitoring_tasks env_blocked store_ex)) ''2'')
       = set [''u2'', ''u1'']"
  using seen_iff_delivered_unless_removed [of env_blocked store_ex "''2''"]
  by (simp add: deliveries_ex_blocked marked_unreachable_def delivered_urls_def store_ex_fields
      py_str_opt_def insert_commute)

subsection \<open>C2: one fetch per key\<close>

text \<open>
  C2. In one cycle the scraper is called exactly once for every key of an active
  watch, however many watches share the key, and for no other key.
\<close>

theorem one_scrape_per_key:
  "count_list (scrapes (check_monitoring_tasks e s)) k = (if active_key s k then 1 else 0)"
proof -
  have "k \<in> set (scrapes (check_monitoring_tasks e s)) \<longleftrightarrow> active_key s k"
    unfolding scrapes_set active_key_def by auto
  then show ?thesis
    by (simp add: count_list_distinct [OF scrapes_distinct])
qed

text \<open>Witness: the key that the first two watches share.\<close>

theorem one_scrape_per_key_witness:
  "active_key store_ex (Some ''mercari'', Some ''holo plush'', Some ''LaunchDate'')
   \<and> count_list (scrapes (check_monitoring_tasks env_ok store_ex))
        (Some ''mercari'', Some ''holo plush'', Some ''LaunchDate'') = 1"
  using one_scrape_per_key [of env_ok store_ex "(Some ''mercari'', Some ''holo plush'', Some ''LaunchDate'')"]
  by (simp add: active_key_ex)

subsection \<open>C3: the match rule\<close>

text \<open>
  C3. An item matches a watch exactly when it has a url and a price, the price is at
  most the watch's \<open>max_price\<close>, and, if the watch has \<open>max_minutes_left\<close>, the item's
  \<open>minutes_left\<close> is present, is not \<open>-1\<close> and is at most it; and the new items of the
  watch are the items of the list that match and whose url is not in the seen set.
  The prices compare as floats do (\<open>float_le\<close>).
\<close>

theorem match_rule:
  "(item_match (t_max_price w) (t_max_minutes_left w) item \<longleftrightarrow>
      py_truthy (i_url item)
      \<and> (\<exists>p. i_price item = Some p \<and> float_le p (t_max_price w))
      \<and> (case t_max_minutes_left w of
           None \<Rightarrow> True
         | Some m \<Rightarrow> \<exists>l. i_minutes_left item = Some l \<and> l \<noteq> - 1 \<and> l \<le> m))
   \<and> fst (match_items (t_max_price w) (t_max_minutes_left w) seen items) =
       filter (\<lambda>item. item_match (t_max_price w) (t_max_minutes_left w) item
                       \<and> py_str_opt (i_url item) \<notin> set seen) items"
  by (simp add: item_match_iff match_items_filter)

subsection \<open>C4: no second delivery of a seen item\<close>

text \<open>
  C4. Every delivery that a cycle attempts is for an item whose url was not in the
  seen set of that watch when the cycle started.
\<close>

theorem seen_never_redelivered:
  "\<forall>d \<in> set (deliveries (check_monitoring_tasks e s)).
     \<exists>u. d_link d = Some u \<and> u \<notin> set (notified_sets s (d_task d))"
proof (cases "gather e = GatherDone")
  case False
  then show ?thesis by (simp add: cycle_not_done)
next
  case True
  show ?thesis
  proof
    fix d assume "d \<in> set (deliveries (check_monitoring_tasks e s))"
    then have "d \<in> set (all_deliveries e s (loaded_tasks s))"
      using True by (simp add: cycle_deliveries)
    then obtain t w where "d \<in> set (task_deliveries e s t w)"
      using all_deliveries_task by blast
    then obtain item where dt: "d_task d = t" and it: "item \<in> set (task_new_items e s t w)"
        and l: "d_link d = i_url item"
      using task_deliveries_task by blast
    from it have m: "item_match (t_max_price w) (t_max_minutes_left w) item"
        and n: "py_str_opt (i_url item) \<notin> set (notified_sets s t)"
      using task_new_items_filter by blast+
    from m obtain u where u: "i_url item = Some u" using item_match_url by blast
    with n have "u \<notin> set (notified_sets s t)" by (simp add: py_str_opt_def)
    with u l dt show "\<exists>u. d_link d = Some u \<and> u \<notin> set (notified_sets s (d_task d))"
      by simp
  qed
qed

text \<open>Witness: the second watch has seen \<open>u2\<close> and is sent \<open>u1\<close> only.\<close>

theorem seen_never_redelivered_witness:
  "filter (\<lambda>d. d_task d = ''2'') (deliveries (check_monitoring_tasks env_ok store_ex)) =
     [\<lparr>d_task = ''2'', d_chat = - 8, d_link = Some ''u1'',
        d_calls = [(SendPhoto, Sent)], d_result = Delivered\<rparr>]
   \<and> notified_sets store_ex ''2'' = [''u2'']
   \<and> list_all (\<lambda>d. \<exists>u. d_link d = Some u \<and> u \<notin> set (notified_sets store_ex (d_task d)))
        (deliveries (check_monitoring_tasks env_ok store_ex))"
  using seen_never_redelivered [of env_ok store_ex]
  by (simp add: deliveries_ex_ok store_ex_fields list_all_iff)

subsection \<open>C5: a destination that is unreachable\<close>

text \<open>
  Counterexample to C5 as stated. The photo call for \<open>u1\<close> is refused as a bad request
  about the photo, and the text call made in its place is answered \<^verbatim>\<open>Forbidden\<close>. That
  answer is caught by the handler of the fallback: the item counts as not delivered,
  the next item of the same watch is still sent, and the watch is still in the store
  when the cycle ends.
\<close>

theorem fallback_forbidden_counterexample:
  "deliveries (check_monitoring_tasks env_fallback_blocked store_ex) =
     [\<lparr>d_task = ''1'', d_chat = 7, d_link = Some ''u1'',
        d_calls = [(SendPhoto, BadRequest ''Wrong file identifier/HTTP URL specified''),
                   (SendMessageMarkdown, Forbidden)],
        d_result = NotDelivered\<rparr>,
      \<lparr>d_task = ''1'', d_chat = 7, d_link = Some ''u2'',
        d_calls = [(SendMessageMarkdown, Sent)], d_result = Delivered\<rparr>,
      \<lparr>d_task = ''2'', d_chat = - 8, d_link = Some ''u1'',
        d_calls = [(SendPhoto, Sent)], d_result = Delivered\<rparr>,
      \<lparr>d_task = ''3'', d_chat = 7, d_link = Some ''y1'',
        d_calls = [(SendMessageMarkdown, Sent)], d_result = Delivered\<rparr>]
   \<and> ''1'' \<in> set (all_tasks (store_after (check_monitoring_tasks env_fallback_blocked store_ex)))
   \<and> task_hashes (store_after (check_monitoring_tasks env_fallback_blocked store_ex)) ''1'' = hash_1"
proof -
  have "list_all (\<lambda>d. d_result d \<noteq> Unreachable)
          (deliveries (check_monitoring_tasks env_fallback_blocked store_ex))"
    by (simp add: deliveries_ex_fallback_blocked)
  then obtain N where
    "store_after (check_monitoring_tasks env_fallback_blocked store_ex) = store_ex\<lparr>notified_sets := N\<rparr>"
    using no_unreachable_store by blast
  then show ?thesis
    by (simp add: deliveries_ex_fallback_blocked store_ex_fields)
qed

text \<open>
  C5, amended. When the first call for an item of a watch is answered \<^verbatim>\<open>Forbidden\<close>,
  that delivery is the last one of the watch in the cycle, the url of the item is not
  in the seen set of the watch after the cycle, and the watch, being listed in the
  task set of its chat, is deleted from the store when the cycle ends.
\<close>

theorem forbidden_first_call:
  assumes d: "d \<in> set (deliveries (check_monitoring_tasks e s))"
      and un: "d_result d = Unreachable"
  shows "(\<forall>pre post. filter (\<lambda>x. d_task x = d_task d) (deliveries (check_monitoring_tasks e s))
                        = pre @ d # post \<longrightarrow> post = [])
       \<and> py_str_opt (d_link d) \<notin> set (notified_sets (store_after (check_monitoring_tasks e s)) (d_task d))
       \<and> (d_task d \<in> set (chat_task_sets s (d_chat d)) \<longrightarrow>
            d_task d \<notin> set (all_tasks (store_after (check_monitoring_tasks e s)))
            \<and> task_hashes (store_after (check_monitoring_tasks e s)) (d_task d) = []
            \<and> notified_sets (store_after (check_monitoring_tasks e s)) (d_task d) = [])"
proof -
  let ?r = "check_monitoring_tasks e s"
  let ?L = "loop_result e s"
  let ?t = "d_task d"
  obtain w where g: "gather e = GatherDone" and mo: "map_of (loaded_tasks s) ?t = Some w"
      and c: "d_chat d = t_chat_id w" and dt: "d \<in> set (task_deliveries e s ?t w)"
    using delivery_origin [OF d] by blast
  have tw: "(?t, w) \<in> set (loaded_tasks s)"
    using mo by (rule map_of_SomeD)
  have hu: "has_unreachable (task_deliveries e s ?t w)"
    using dt un by (auto simp: has_unreachable_def)
  have fl: "filter (\<lambda>x. d_task x = ?t) (deliveries ?r) = task_deliveries e s ?t w"
    using g mo by (simp add: cycle_deliveries filter_all_deliveries loaded_tasks_distinct)
  have a: "\<forall>pre post. filter (\<lambda>x. d_task x = ?t) (deliveries ?r) = pre @ d # post \<longrightarrow> post = []"
    unfolding fl task_deliveries_def using deliver_items_break un by blast
  have st: "store_after ?r = remove_tasks (fst ?L) (snd (snd ?L))"
    using g by (rule cycle_done)
  have "notified_sets (fst ?L) ?t = notified_sets s ?t"
    using cycle_done_store [OF g, of s ?t] mo hu by (simp add: task_seen_after_def)
  then have "set (notified_sets (store_after ?r) ?t) \<subseteq> set (notified_sets s ?t)"
    using remove_tasks_notified_subset [of "fst ?L" "snd (snd ?L)" ?t] st by simp
  moreover have "py_str_opt (d_link d) \<notin> set (notified_sets s ?t)"
  proof -
    obtain item where "item \<in> set (task_new_items e s ?t w)" "d_link d = i_url item"
      using dt task_deliveries_task by blast
    then show ?thesis using task_new_items_filter by fastforce
  qed
  ultimately have b: "py_str_opt (d_link d) \<notin> set (notified_sets (store_after ?r) ?t)"
    by blast
  have cc: "task_gone (store_after ?r) ?t" if "?t \<in> set (chat_task_sets s (d_chat d))"
    using d un that by (rule unreachable_task_removed)
  from a b cc show ?thesis
    by (simp add: task_gone_def)
qed

text \<open>Witness: the first watch in the cycle where the call for \<open>u2\<close> is answered so.\<close>

theorem forbidden_first_call_witness:
  "\<lparr>d_task = ''1'', d_chat = 7, d_link = Some ''u2'',
     d_calls = [(SendMessageMarkdown, Forbidden)], d_result = Unreachable\<rparr>
     \<in> set (deliveries (check_monitoring_tasks env_blocked store_ex))
   \<and> ''1'' \<in> set (chat_task_sets store_ex 7)
   \<and> ''u2'' \<notin> set (notified_sets (store_after (check_monitoring_tasks env_blocked store_ex)) ''1'')
   \<and> ''1'' \<notin> set (all_tasks (store_after (check_monitoring_tasks env_blocked store_ex)))
   \<and> task_hashes (store_after (check_monitoring_tasks env_blocked store_ex)) ''1'' = []"
  using forbidden_first_call [of "\<lparr>d_task = ''1'', d_chat = 7, d_link = Some ''u2'',
     d_calls = [(SendMessageMarkdown, Forbidden)], d_result = Unreachable\<rparr>" env_blocked store_ex]
  by (simp add: deliveries_ex_blocked store_ex_fields py_str_opt_def)

subsection \<open>C6: the fetch that times out\<close>

text \<open>
  C6. When the gathered fetch runs into its timeout, the cycle ends with the store as
  it was and without any delivery.
\<close>

theorem timeout_no_effect:
  "gather e = GatherTimeout \<Longrightarrow>
     store_after (check_monitoring_tasks e s) = s \<and> deliveries (check_monitoring_tasks e s) = []"
  by (auto simp: check_monitoring_tasks_def Let_def split: prod.splits)

text \<open>Witness: the example store in a world where the fetch times out.\<close>

theorem timeout_no_effect_witness:
  "gather env_timeout = GatherTimeout
   \<and> store_after (check_monitoring_tasks env_timeout store_ex) = store_ex
   \<and> deliveries (check_monitoring_tasks env_timeout store_ex) = []"
  using timeout_no_effect [of env_timeout store_ex]
  by (simp add: gather_ex)

subsection \<open>C7: the second cycle is silent\<close>

text \<open>
  C7. If a cycle fetched, every delivery it attempted succeeded, and the next cycle
  gets the same answers from the scraper, then the next cycle attempts no delivery.
\<close>

theorem second_cycle_silent:
  assumes done1: "gather e1 = GatherDone"
      and ok: "\<forall>d \<in> set (deliveries (check_monitoring_tasks e1 s)). d_result d = Delivered"
      and same: "scrape_zenmarket e2 = scrape_zenmarket e1"
  shows "deliveries (check_monitoring_tasks e2 (store_after (check_monitoring_tasks e1 s))) = []"
proof (cases "gather e2 = GatherDone")
  case False
  then show ?thesis by (simp add: cycle_not_done)
next
  case done2: True
  let ?L = "loop_result e1 s"
  let ?s1 = "store_after (check_monitoring_tasks e1 s)"
  have del1: "deliveries (check_monitoring_tasks e1 s) = all_deliveries e1 s (loaded_tasks s)"
    using done1 by (rule cycle_deliveries)
  have no_un: "\<not> has_unreachable (task_deliveries e1 s t w)" if "(t, w) \<in> set (loaded_tasks s)" for t w
  proof
    assume "has_unreachable (task_deliveries e1 s t w)"
    then obtain d where "d \<in> set (task_deliveries e1 s t w)" "d_result d = Unreachable"
      by (auto simp: has_unreachable_def)
    with task_deliveries_subset [OF that, of e1 s] ok del1 show False by auto
  qed
  have "set (snd (snd ?L)) = {}"
    unfolding loop_rm using no_un by auto
  then have s1: "?s1 = fst ?L"
    using done1 by (simp add: cycle_done)
  obtain N where fr: "fst ?L = s\<lparr>notified_sets := N\<rparr>"
    unfolding loop_result_eq using step_loop_frame by blast
  have lt: "loaded_tasks ?s1 = loaded_tasks s"
    by (rule loaded_tasks_cong) (simp_all add: s1 fr)
  have empty: "task_deliveries e2 ?s1 t w = []" if tw: "(t, w) \<in> set (loaded_tasks s)" for t w
  proof -
    have mo: "map_of (loaded_tasks s) t = Some w"
      using tw loaded_tasks_distinct by simp
    have n1: "notified_sets ?s1 t = task_seen_after e1 s (notified_sets s t) t w"
      using cycle_done_store [OF done1, of s t] mo by (simp add: s1)
    have alld: "\<forall>d \<in> set (task_deliveries e1 s t w). d_result d = Delivered"
      using task_deliveries_subset [OF tw, of e1 s] ok del1 by auto
    have links: "delivered_links (task_deliveries e1 s t w) = map i_url (task_new_items e1 s t w)"
      unfolding task_deliveries_def
      by (rule deliver_items_all_delivered) (use alld in \<open>simp add: task_deliveries_def\<close>)
    have seen: "set (notified_sets ?s1 t) =
        set (notified_sets s t) \<union> (\<lambda>item. py_str_opt (i_url item)) ` set (task_new_items e1 s t w)"
      using no_un [OF tw] by (auto simp: n1 task_seen_after_def sadd_set links)
    have items: "task_items e2 w = task_items e1 w"
      by (simp add: task_items_def same)
    have "task_new_items e2 ?s1 t w = []"
    proof (cases "t_chat_id w \<noteq> 0 \<and> py_truthy (t_platform w) \<and> py_truthy (t_query w)")
      case False
      then show ?thesis by (auto simp: task_new_items_def)
    next
      case True
      have "\<forall>item \<in> set (task_items e1 w).
              item_match (t_max_price w) (t_max_minutes_left w) item \<longrightarrow>
              py_str_opt (i_url item) \<in> set (notified_sets ?s1 t)"
      proof (intro ballI impI)
        fix item assume i: "item \<in> set (task_items e1 w)"
          and m: "item_match (t_max_price w) (t_max_minutes_left w) item"
        show "py_str_opt (i_url item) \<in> set (notified_sets ?s1 t)"
        proof (cases "py_str_opt (i_url item) \<in> set (notified_sets s t)")
          case True
          then show ?thesis by (simp add: seen)
        next
          case False
          with i m True have "item \<in> set (task_new_items e1 s t w)"
            by (simp add: task_new_items_def match_items_filter)
          then show ?thesis by (simp add: seen)
        qed
      qed
      then show ?thesis
        using True by (auto simp: task_new_items_def match_items_filter items filter_empty_conv)
    qed
    then show ?thesis by (simp add: task_deliveries_def)
  qed
  have "deliveries (check_monitoring_tasks e2 ?s1) = all_deliveries e2 ?s1 (loaded_tasks ?s1)"
    using done2 by (rule cycle_deliveries)
  also have "\<dots> = []"
    by (rule all_deliveries_Nil) (simp add: lt empty)
  finally show ?thesis .
qed

text \<open>Witness: two cycles on the example store in the world where every call succeeds.\<close>

theorem second_cycle_silent_witness:
  "gather env_ok = GatherDone
   \<and> map d_result (deliveries (check_monitoring_tasks env_ok store_ex))
       = [Delivered, Delivered, Delivered, Delivered]
   \<and> deliveries (check_monitoring_tasks env_ok (store_after (check_monitoring_tasks env_ok store_ex)))
       = []"
  using second_cycle_silent [of env_ok store_ex env_ok]
  by (simp add: gather_ex deliveries_ex_ok)

subsection \<open>C8: the parse, and the watches left out\<close>

text \<open>
  Counterexample to C8 as stated. A hash without \<open>id\<close>, \<open>chat_id\<close> and \<open>max_price\<close> is
  not rejected: the parse returns a task with the defaults \<open>0\<close>, \<open>0\<close> and \<open>0.0\<close>.
\<close>

theorem parse_defaults_counterexample:
  "parse_task_hash hash_bare =
     Some \<lparr>t_id = 0, t_chat_id = 0, t_platform = Some ''mercari'',
           t_query = Some ''holo plush'', t_max_price = Finite 0,
           t_sort_options = None, t_max_minutes_left = None\<rparr>"
  by (rule parse_hash_bare)

text \<open>
  C8, amended. The parse rejects a hash exactly when it is empty, or its \<open>id\<close> or
  \<open>chat_id\<close> is present and \<^verbatim>\<open>int\<close> refuses it, or its \<open>max_price\<close> is present and
  \<^verbatim>\<open>float\<close> refuses it; \<^verbatim>\<open>float\<close> refuses neither \<^verbatim>\<open>inf\<close> nor \<^verbatim>\<open>nan\<close>. An absent
  \<open>id\<close>, \<open>chat_id\<close> or \<open>max_price\<close> becomes \<open>0\<close>, and \<open>platform\<close> and \<open>query\<close> are taken
  as they are, present or not. In the cycle every key handed to the scraper is the
  key of a task that parsed and has a platform and a query, and every delivery is for
  a task that parsed and has a platform, a query and a chat id other than \<open>0\<close>: a
  rejected task, and a task without platform or query, adds no key and gets no
  delivery.
\<close>

theorem parse_rejects_malformed_only:
  "(parse_task_hash h = None \<longleftrightarrow>
      h = []
      \<or> (\<exists>v. map_of h ''id'' = Some v \<and> py_int v = None)
      \<or> (\<exists>v. map_of h ''chat_id'' = Some v \<and> py_int v = None)
      \<or> (\<exists>v. map_of h ''max_price'' = Some v \<and> py_float v = None))
   \<and> (\<forall>w. parse_task_hash h = Some w \<longrightarrow>
          (map_of h ''id'' = None \<longrightarrow> t_id w = 0)
          \<and> (map_of h ''chat_id'' = None \<longrightarrow> t_chat_id w = 0)
          \<and> (map_of h ''max_price'' = None \<longrightarrow> t_max_price w = Finite 0)
          \<and> t_platform w = map_of h ''platform''
          \<and> t_query w = map_of h ''query'')
   \<and> (\<forall>k \<in> set (scrapes (check_monitoring_tasks e s)). active_key s k)
   \<and> (\<forall>d \<in> set (deliveries (check_monitoring_tasks e s)).
          \<exists>w. d_task d \<in> set (all_tasks s)
               \<and> parse_task_hash (task_hashes s (d_task d)) = Some w
               \<and> t_chat_id w \<noteq> 0 \<and> py_truthy (t_platform w) \<and> py_truthy (t_query w))"
proof -
  have "\<forall>k \<in> set (scrapes (check_monitoring_tasks e s)). active_key s k"
    unfolding scrapes_set active_key_def by blast
  then show ?thesis
    using parse_None_iff [of h] parse_defaults [of h] deliveries_complete_task [of _ e s]
    by blast
qed

text \<open>
  Witness: a hash whose \<open>id\<close> is not a number, and one whose \<open>id\<close> is padded with a
  separator that \<^verbatim>\<open>int\<close> does not skip, are rejected; the hash of the counterexample
  gets the defaults; a hash whose \<open>max_price\<close> is \<^verbatim>\<open>inf\<close> is not rejected, and in the
  store that holds it the cycle fetches its key and delivers both items; and the
  cycle on the example store delivers to watches that parsed.
\<close>

theorem parse_rejects_malformed_only_witness:
  "map_of hash_bad_id ''id'' = Some ''x1'' \<and> py_int ''x1'' = None
   \<and> parse_task_hash hash_bad_id = None
   \<and> map_of hash_sep ''id'' = Some [CHR 0x1C, CHR ''5''] \<and> py_int [CHR 0x1C, CHR ''5''] = None
   \<and> parse_task_hash hash_sep = None
   \<and> map_of hash_bare ''chat_id'' = None
   \<and> map_option t_chat_id (parse_task_hash hash_bare) = Some 0
   \<and> map_of hash_inf ''max_price'' = Some ''inf'' \<and> py_float ''inf'' = Some PosInf
   \<and> map_option t_max_price (parse_task_hash hash_inf) = Some PosInf
   \<and> scrapes (check_monitoring_tasks env_ok store_inf)
       = [(Some ''mercari'', Some ''holo plush'', Some ''LaunchDate'')]
   \<and> active_key store_inf (Some ''mercari'', Some ''holo plush'', Some ''LaunchDate'')
   \<and> map d_link (deliveries (check_monitoring_tasks env_ok store_inf)) = [Some ''u1'', Some ''u2'']
   \<and> list_all (active_key store_ex) (scrapes (check_monitoring_tasks env_ok store_ex))
   \<and> map d_task (deliveries (check_monitoring_tasks env_ok store_ex)) = [''1'', ''1'', ''2'', ''3'']"
proof -
  have "parse_task_hash hash_bad_id = None"
    using parse_rejects_malformed_only [of hash_bad_id env_ok store_ex]
    by (simp add: hash_fields_ex py_int_x1)
  moreover have "parse_task_hash hash_sep = None"
    using parse_rejects_malformed_only [of hash_sep env_ok store_ex]
    by (simp add: hash_fields_ex py_int_sep)
  moreover have "map_option t_chat_id (parse_task_hash hash_bare) = Some 0"
    using parse_rejects_malformed_only [of hash_bare env_ok store_ex]
    by (simp add: hash_fields_ex parse_hash_bare)
  moreover have "active_key store_inf (Some ''mercari'', Some ''holo plush'', Some ''LaunchDate'')"
    using parse_rejects_malformed_only [of hash_inf env_ok store_inf]
    by (simp add: scrapes_inf)
  moreover have "list_all (active_key store_ex) (scrapes (check_monitoring_tasks env_ok store_ex))"
    using parse_rejects_malformed_only [of hash_bare env_ok store_ex]
    by (simp add: list_all_iff)
  ultimately show ?thesis
    by (simp add: hash_fields_ex py_int_x1 py_int_sep py_float_special parse_hash_inf watch_inf_def
        scrapes_inf deliveries_inf deliveries_ex_ok)
qed

subsection \<open>C9: one key that fails\<close>

text \<open>
  C9. In a cycle that fetched, the deliveries of a watch are those for the new items
  among the answer for its own key, whatever the other keys answered, where an
  exception raised for the key and the answer \<^verbatim>\<open>None\<close> both give no item; and in the
  map of the answers \<^verbatim>\<open>None\<close> is replaced by the empty list.
\<close>
theorem own_key_only:
  assumes "gather e = GatherDone"
      and "t \<in> set (all_tasks s)"
      and "parse_task_hash (task_hashes s t) = Some w"
      and "t_chat_id w \<noteq> 0" and "py_truthy (t_platform w)" and "py_truthy (t_query w)"
  shows "filter (\<lambda>d. d_task d = t) (deliveries (check_monitoring_tasks e s)) =
           fst (notify_items e t (t_chat_id w) (py_str_opt (t_platform w)) 0
                  (fst (match_items (t_max_price w) (t_max_minutes_left w) (notified_sets s t)
                          (case scrape_zenmarket e (scrape_key_of w) of
                             ScrapeRaised \<Rightarrow> []
                           | ScrapeNone \<Rightarrow> []
                           | ScrapeItems items \<Rightarrow> items)))
                  [])
         \<and> map_of (build_scraped_items_map e (scrapes (check_monitoring_tasks e s))) (scrape_key_of w) =
             Some (case scrape_zenmarket e (scrape_key_of w) of
                     ScrapeRaised \<Rightarrow> ScrapeRaised
                   | ScrapeNone \<Rightarrow> ScrapeItems []
                   | ScrapeItems items \<Rightarrow> ScrapeItems items)"
proof -
  have "(t, w) \<in> set (loaded_tasks s)"
    using assms(2,3) by (simp add: loaded_tasks_iff)
  then have mo: "map_of (loaded_tasks s) t = Some w"
    using loaded_tasks_distinct by simp
  have "filter (\<lambda>d. d_task d = t) (deliveries (check_monitoring_tasks e s)) = task_deliveries e s t w"
    using assms(1) mo by (simp add: cycle_deliveries filter_all_deliveries loaded_tasks_distinct)
  also have "\<dots> = fst (notify_items e t (t_chat_id w) (py_str_opt (t_platform w)) 0
                  (task_new_items e s t w) [])"
    by (simp add: notify_items_eq task_deliveries_def)
  also have "task_new_items e s t w =
      fst (match_items (t_max_price w) (t_max_minutes_left w) (notified_sets s t)
                          (case scrape_zenmarket e (scrape_key_of w) of
                             ScrapeRaised \<Rightarrow> []
                           | ScrapeNone \<Rightarrow> []
                           | ScrapeItems items \<Rightarrow> items))"
    using assms(4-6) by (simp add: task_new_items_def task_items_def split: scrape_outcome.splits)
  finally have own: "filter (\<lambda>d. d_task d = t) (deliveries (check_monitoring_tasks e s)) =
           fst (notify_items e t (t_chat_id w) (py_str_opt (t_platform w)) 0
                  (fst (match_items (t_max_price w) (t_max_minutes_left w) (notified_sets s t)
                          (case scrape_zenmarket e (scrape_key_of w) of
                             ScrapeRaised \<Rightarrow> []
                           | ScrapeNone \<Rightarrow> []
                           | ScrapeItems items \<Rightarrow> items)))
                  [])" .
  have "scrape_key_of w \<in> set (scrapes (check_monitoring_tasks e s))"
    using \<open>(t, w) \<in> set (loaded_tasks s)\<close> assms(5,6)
    by (simp add: cycle_scrapes loaded_key_in_scrape_keys)
  then have "map_of (build_scraped_items_map e (scrapes (check_monitoring_tasks e s))) (scrape_key_of w) =
             Some (case scrape_zenmarket e (scrape_key_of w) of
                     ScrapeRaised \<Rightarrow> ScrapeRaised
                   | ScrapeNone \<Rightarrow> ScrapeItems []
                   | ScrapeItems items \<Rightarrow> ScrapeItems items)"
    by (simp add: built_map_of)
  with own show ?thesis by simp
qed

text \<open>
  Witness: the fetch for the Mercari key raises, and the Yahoo watch is still sent its
  item.
\<close>

theorem own_key_only_witness:
  "scrape_zenmarket env_partial (scrape_key_of watch_1) = ScrapeRaised
   \<and> filter (\<lambda>d. d_task d = ''3'') (deliveries (check_monitoring_tasks env_partial store_ex)) =
       [\<lparr>d_task = ''3'', d_chat = 7, d_link = Some ''y1'',
          d_calls = [(SendMessageMarkdown, Sent)], d_result = Delivered\<rparr>]"
  using own_key_only [of env_partial "''3''" store_ex watch_3]
  by (simp add: gather_ex store_ex_fields parse_hash_3 watch_defs item_defs env_partial_def
      scrape_key_of_def item_match_def py_truthy_def py_str_opt_def send_item_def
      py_startswith_def)

subsection \<open>C10: the chats that the list of subscribers leaves out\<close>

text \<open>
  C10. \<open>get_distinct_chat_ids\<close> returns the numbers of the members of the all-chats
  set that consist of digits only, and nothing else. The string of a negative chat id
  is no such member, so a negative chat id is never in the result, although a
  successful \<open>add_task\<close> for it has put that string into the all-chats set.
\<close>

theorem digit_chats_only:
  "get_distinct_chat_ids s = map (\<lambda>m. int (digits_value m)) (filter py_isdigit (all_chats s))
   \<and> (chat_id < 0 \<longrightarrow>
         \<not> py_isdigit (py_str_int chat_id) \<and> chat_id \<notin> set (get_distinct_chat_ids s))
   \<and> (snd (add_task s chat_id platform query max_price sort_options max_minutes_left) \<noteq> None
        \<longrightarrow> py_str_int chat_id
             \<in> set (all_chats (fst (add_task s chat_id platform query max_price sort_options
                                      max_minutes_left))))"
proof -
  have "py_str_int chat_id
          \<in> set (all_chats (fst (add_task s chat_id platform query max_price sort_options
                                   max_minutes_left)))"
    if "snd (add_task s chat_id platform query max_price sort_options max_minutes_left) \<noteq> None"
  proof -
    obtain s' r where a: "add_task s chat_id platform query max_price sort_options max_minutes_left = (s', r)"
      by (cases "add_task s chat_id platform query max_price sort_options max_minutes_left")
    with that obtain task_id where "r = Some task_id" by auto
    with a show ?thesis using add_task_all_chats by fastforce
  qed
  moreover have "chat_id \<notin> set (get_distinct_chat_ids s)" if "chat_id < 0"
    using that by (auto simp: get_distinct_chat_ids_eq)
  ultimately show ?thesis
    by (simp add: get_distinct_chat_ids_eq negative_not_isdigit)
qed

text \<open>
  Witness: the example store lists the chats \<open>7\<close> and \<open>-8\<close>; only \<open>7\<close> is returned, also
  after a further task is added for \<open>-8\<close>.
\<close>

theorem digit_chats_only_witness:
  "all_chats store_ex = [''7'', ''-8'']
   \<and> get_distinct_chat_ids store_ex = [7]
   \<and> snd (add_task store_ex (- 8) ''yahoo'' ''miku'' ''100.0'' None None) = Some 4
   \<and> ''-8'' \<in> set (all_chats (fst (add_task store_ex (- 8) ''yahoo'' ''miku'' ''100.0'' None None)))
   \<and> - 8 \<notin> set (get_distinct_chat_ids
                      (fst (add_task store_ex (- 8) ''yahoo'' ''miku'' ''100.0'' None None)))"
proof -
  let ?s' = "fst (add_task store_ex (- 8) ''yahoo'' ''miku'' ''100.0'' None None)"
  note first = digit_chats_only [of store_ex "- 8" "''yahoo''" "''miku''" "''100.0''" None None]
  note second = digit_chats_only [of ?s' "- 8" "''yahoo''" "''miku''" "''100.0''" None None]
  have "get_distinct_chat_ids store_ex = [7]"
    using first
    by (simp add: store_ex_fields py_isdigit_def is_ascii_digit_def digits_value_def
        digit_value_def)
  moreover have "''-8'' \<in> set (all_chats ?s')"
    using first by (simp add: add_task_ex py_str_int_ex)
  moreover have "- 8 \<notin> set (get_distinct_chat_ids ?s')"
    using second [THEN conjunct2, THEN conjunct1] by simp
  ultimately show ?thesis
    by (simp add: store_ex_fields add_task_ex)
qed

end
